theory Spec2Isabelle
  imports Main "HOL-Library.Word"
begin

section \<open>Presentation-layer state (src/lib/state/profile.svelte.ts)\<close>

text \<open>
  The module keeps two singletons, \<^verbatim>\<open>communities\<close> and \<^verbatim>\<open>profiles\<close>, and the browser's
  \<^verbatim>\<open>localStorage\<close>. The types \<^verbatim>\<open>CommunityInfo\<close> and \<^verbatim>\<open>ProfileInfo\<close> are declared in
  \<^verbatim>\<open>$lib/models\<close>; the module reads only their \<^verbatim>\<open>id\<close>, so every other field is the type
  parameter of the record. Ids are integer-valued JavaScript numbers (they are the INTEGER keys
  of the relational store) and are modelled as \<^typ>\<open>int\<close>.
  \<^verbatim>\<open>communities.active\<close> is only ever assigned the result of \<^verbatim>\<open>Array.prototype.find\<close>, an element
  or \<^verbatim>\<open>undefined\<close>, and is an \<^typ>\<open>'a option\<close>.
\<close>

record 'a CommunityInfo =
  community_id :: int
  community_fields :: 'a

record 'a ProfileInfo =
  profile_id :: int
  profile_fields :: 'a

text \<open>
  \<^verbatim>\<open>profiles.active\<close> is declared \<^verbatim>\<open>ProfileInfo | undefined\<close>, but the declaration is erased from
  the emitted JavaScript and the field is assigned whatever the backend's reply deserialises
  to. A reply is JSON, which has \<^verbatim>\<open>null\<close> and no \<^verbatim>\<open>undefined\<close>, so the field has three run-time
  cases, and the code tells them apart: \<^verbatim>\<open>x !== undefined\<close> holds of \<^verbatim>\<open>null\<close>, while \<^verbatim>\<open>x?.id\<close>
  is \<^verbatim>\<open>undefined\<close> for both \<^verbatim>\<open>null\<close> and \<^verbatim>\<open>undefined\<close>.
\<close>

datatype 'a nullable = Undefined | Null | Obj 'a

text \<open>\<^verbatim>\<open>x?.id\<close> on a profile reference; \<open>None\<close> is the value \<^verbatim>\<open>undefined\<close>.\<close>

fun optional_id :: "'p ProfileInfo nullable \<Rightarrow> int option" where
  "optional_id (Obj p) = Some (profile_id p)"
| "optional_id Null = None"
| "optional_id Undefined = None"

text \<open>Reading a property of \<^verbatim>\<open>null\<close> throws.\<close>

datatype js_error = TypeError

text \<open>
  \<^verbatim>\<open>communities.all\<close>, \<^verbatim>\<open>communities.active\<close>, \<^verbatim>\<open>profiles.active\<close>, the key/value pairs of
  \<^verbatim>\<open>localStorage\<close>, and the messages written with \<^verbatim>\<open>console.warn\<close>.
\<close>

record ('c, 'p) app =
  communities_all :: "'c CommunityInfo list"
  communities_active :: "'c CommunityInfo option"
  profiles_active :: "'p ProfileInfo nullable"
  localStorage :: "string \<rightharpoonup> string"
  console_warn :: "string list"

text \<open>\<^verbatim>\<open>value.toString()\<close> of an integer-valued number: its decimal digits, with a leading
  minus sign when negative.\<close>

fun digits_of :: "nat \<Rightarrow> string" where
  "digits_of n =
     (if n < 10 then [''0123456789'' ! n]
      else digits_of (n div 10) @ [''0123456789'' ! (n mod 10)])"

declare digits_of.simps [simp del]

definition toString :: "int \<Rightarrow> string" where
  "toString n = (if n < 0 then CHR ''-'' # digits_of (nat (- n)) else digits_of (nat n))"

text \<open>
  \<^verbatim>\<open>parseInt(value)\<close> without a radix, on ASCII strings: leading white space is skipped, a
  sign is read, a \<^verbatim>\<open>0x\<close>/\<^verbatim>\<open>0X\<close> prefix selects radix 16, the longest prefix of digits of
  the radix is the value, and the result is \<^verbatim>\<open>NaN\<close> (here \<open>None\<close>) when that prefix is empty.
\<close>

definition is_space :: "char \<Rightarrow> bool" where
  "is_space c \<longleftrightarrow> (of_char c :: nat) \<in> {9, 10, 11, 12, 13, 32}"

definition digit_value :: "char \<Rightarrow> nat option" where
  "digit_value c =
     (let k = (of_char c :: nat)
      in if 48 \<le> k \<and> k \<le> 57 then Some (k - 48)
         else if 97 \<le> k \<and> k \<le> 122 then Some (k - 87)
         else if 65 \<le> k \<and> k \<le> 90 then Some (k - 55)
         else None)"

definition is_digit :: "nat \<Rightarrow> char \<Rightarrow> bool" where
  "is_digit radix c = (case digit_value c of None \<Rightarrow> False | Some d \<Rightarrow> d < radix)"

definition digits_value :: "nat \<Rightarrow> string \<Rightarrow> nat" where
  "digits_value radix z = foldl (\<lambda>acc c. acc * radix + the (digit_value c)) 0 z"

definition parseInt :: "string \<Rightarrow> int option" where
  "parseInt str =
     (let s0 = dropWhile is_space str;
          neg = (s0 \<noteq> [] \<and> hd s0 = CHR ''-'');
          s1 = (if s0 \<noteq> [] \<and> (hd s0 = CHR ''-'' \<or> hd s0 = CHR ''+'') then tl s0 else s0);
          hex = (case s1 of a # b # _ \<Rightarrow> a = CHR ''0'' \<and> (b = CHR ''x'' \<or> b = CHR ''X'')
                 | _ \<Rightarrow> False);
          radix = (if hex then 16 else 10);
          s2 = (if hex then drop 2 s1 else s1);
          z = takeWhile (is_digit radix) s2
      in if z = [] then None
         else Some ((if neg then - 1 else 1) * int (digits_value radix z)))"

text \<open>\<^verbatim>\<open>function getLocalStorageInt(key, def) { let value = localStorage.getItem(key);
  if (value === null) { return def; } return parseInt(value); }\<close> and
  \<^verbatim>\<open>function setLocalStorageInt(key, value) { localStorage.setItem(key, value.toString()); }\<close>
  Both touch nothing but the storage, which is their last argument here.\<close>

definition getLocalStorageInt :: "string \<Rightarrow> int \<Rightarrow> (string \<rightharpoonup> string) \<Rightarrow> int option" where
  "getLocalStorageInt key def ls = (case ls key of None \<Rightarrow> Some def | Some v \<Rightarrow> parseInt v)"

definition setLocalStorageInt :: "string \<Rightarrow> int \<Rightarrow> (string \<rightharpoonup> string) \<Rightarrow> (string \<rightharpoonup> string)" where
  "setLocalStorageInt key v ls = ls(key \<mapsto> toString v)"

text \<open>\<^verbatim>\<open>return communities.all.find((community) => community.id === id)!;\<close>
  \<^verbatim>\<open>Array.prototype.find\<close> returns the first match or \<^verbatim>\<open>undefined\<close>; the postfix \<^verbatim>\<open>!\<close> is a
  compile-time assertion that is erased from the emitted JavaScript.\<close>

definition getCommunity :: "int \<Rightarrow> ('c, 'p) app \<Rightarrow> 'c CommunityInfo option" where
  "getCommunity i s = find (\<lambda>community. community_id community = i) (communities_all s)"

text \<open>\<^verbatim>\<open>setActive(id) { this.active = getCommunity(id);
  setLocalStorageInt('activeCommunity', communities.active?.id ?? 1); }\<close> on the singleton.\<close>

definition Communities_setActive :: "int \<Rightarrow> ('c, 'p) app \<Rightarrow> ('c, 'p) app" where
  "Communities_setActive i s =
     (let s1 = s\<lparr>communities_active := getCommunity i s\<rparr>
      in s1\<lparr>localStorage := setLocalStorageInt ''activeCommunity''
           (case communities_active s1 of None \<Rightarrow> 1 | Some c \<Rightarrow> community_id c)
           (localStorage s1)\<rparr>)"

text \<open>\<^verbatim>\<open>get activeId() { if (this.active !== undefined) { return this.active.id; }
  console.warn('no active profile'); return 1; }\<close>
  The getter returns a number and may append to the console. The test lets \<^verbatim>\<open>null\<close> through
  to \<^verbatim>\<open>this.active.id\<close>, which throws a \<^verbatim>\<open>TypeError\<close>.\<close>

definition Profiles_activeId :: "('c, 'p) app \<Rightarrow> js_error + int \<times> ('c, 'p) app" where
  "Profiles_activeId s =
     (case profiles_active s of
        Obj p \<Rightarrow> Inr (profile_id p, s)
      | Null \<Rightarrow> Inl TypeError
      | Undefined \<Rightarrow> Inr (1, s\<lparr>console_warn := console_warn s @ [''no active profile'']\<rparr>))"

text \<open>
  \<^verbatim>\<open>async setActive(id) { this.active = await invoke('profile', 'get', { id });
  setLocalStorageInt('activeProfile', profiles.active?.id ?? 1); }\<close>
  The backend command behind \<^verbatim>\<open>invoke\<close> lives outside this module; its answer is the
  parameter \<open>reply\<close>: \<open>Inl e\<close> is a rejected promise (the method then rejects before the
  assignment), \<open>Inr r\<close> the resolved value. The assignment and the storage write run
  without interruption once the promise has resolved, on the state \<open>s\<close> of that moment.
\<close>

definition Profiles_setActive ::
  "(int \<Rightarrow> 'e + 'p ProfileInfo nullable) \<Rightarrow> int \<Rightarrow> ('c, 'p) app \<Rightarrow> 'e + ('c, 'p) app" where
  "Profiles_setActive reply i s =
     (case reply i of
        Inl e \<Rightarrow> Inl e
      | Inr r \<Rightarrow>
          (let s1 = s\<lparr>profiles_active := r\<rparr>
           in Inr (s1\<lparr>localStorage := setLocalStorageInt ''activeProfile''
                 (case optional_id (profiles_active s1) of None \<Rightarrow> 1 | Some n \<Rightarrow> n)
                 (localStorage s1)\<rparr>)))"

text \<open>Module initialisation: \<^verbatim>\<open>let activeProfileId = getLocalStorageInt('activeProfile', 1);\<close>
  evaluated by a starting process on the storage that earlier processes left behind.\<close>

definition activeProfileId :: "(string \<rightharpoonup> string) \<Rightarrow> int option" where
  "activeProfileId ls = getLocalStorageInt ''activeProfile'' 1 ls"

text \<open>\<^verbatim>\<open>listen('profile-update', async ({ payload }) => {
  if (profiles.active?.id === payload.id) { profiles.active = payload; } })\<close>
  With no active profile the left operand is \<^verbatim>\<open>undefined\<close>, which is never strictly equal to a
  number.\<close>

definition on_profile_update :: "'p ProfileInfo \<Rightarrow> ('c, 'p) app \<Rightarrow> ('c, 'p) app" where
  "on_profile_update payload s =
     (if optional_id (profiles_active s) = Some (profile_id payload)
      then s\<lparr>profiles_active := Obj payload\<rparr> else s)"

section \<open>The relational store (migration schema of the catalog and the profiles)\<close>

text \<open>
  The schema modelled is the one that declares \<^verbatim>\<open>games\<close>, \<^verbatim>\<open>dependencies\<close> and the trigram
  index; the earlier migration \<^verbatim>\<open>1_initial.sql\<close> declares the same three triggers on
  \<^verbatim>\<open>packages\<close>, word for word. One record per table, one field per column, in the order of the
  \<^verbatim>\<open>CREATE TABLE\<close> statements; a nullable column is an \<^typ>\<open>'a option\<close>. A table is the list
  of its rows in insertion order. The \<^verbatim>\<open>settings\<close> table takes part in no constraint and is
  left out.
\<close>

type_synonym uuid = string
type_synonym datetime = string
type_synonym blob = "8 word list"

record game =
  game_id :: int
  game_name :: string
  game_slug :: string
  game_steam_dir_name :: string
  game_steam_id :: int
  game_mod_loader :: string
  game_override_path :: "string option"
  game_is_favorite :: bool

record category =
  cat_id :: int
  cat_name :: string
  cat_slug :: string
  cat_community_id :: int

record package_category =
  pc_package_id :: uuid
  pc_category_id :: int

record package =
  pkg_id :: uuid
  pkg_name :: string
  pkg_owner :: string
  pkg_description :: string
  pkg_date_created :: datetime
  pkg_has_nsfw_content :: bool
  pkg_is_deprecated :: bool
  pkg_is_pinned :: bool
  pkg_rating_score :: int
  pkg_downloads :: int
  pkg_donation_link :: "string option"
  pkg_latest_version_id :: uuid
  pkg_game_id :: int

record fts_row =
  fts_package_id :: uuid
  fts_name :: string
  fts_description :: string
  fts_owner :: string

record version =
  ver_id :: uuid
  ver_package_id :: uuid
  ver_date_created :: datetime
  ver_downloads :: int
  ver_file_size :: int
  ver_is_active :: bool
  ver_website_url :: "string option"
  ver_major :: int
  ver_minor :: int
  ver_patch :: int

record dependency =
  dep_dependent_id :: uuid
  dep_owner :: string
  dep_name :: string
  dep_major :: int
  dep_minor :: int
  dep_patch :: int

record profile =
  prof_id :: int
  prof_name :: string
  prof_path :: string
  prof_is_favorite :: bool
  prof_launch_mode :: "blob option"
  prof_game_id :: int

record profile_mod =
  pmod_id :: int
  pmod_profile_id :: int
  pmod_enabled :: bool
  pmod_order_index :: int
  pmod_source :: blob

record db =
  games :: "game list"
  categories :: "category list"
  package_categories :: "package_category list"
  packages :: "package list"
  packages_fts :: "fts_row list"
  versions :: "version list"
  dependencies :: "dependency list"
  profiles :: "profile list"
  profile_mods :: "profile_mod list"

text \<open>The state the migration leaves behind: the two seeded games (AUTOINCREMENT ids 1 and 2,
  \<^verbatim>\<open>is_favorite\<close> at its default 0, \<^verbatim>\<open>override_path\<close> NULL) and empty tables otherwise.\<close>

definition seed_db :: db where
  "seed_db =
     \<lparr>games =
        [\<lparr>game_id = 1, game_name = ''Lethal Company'', game_slug = ''lethal-company'',
          game_steam_dir_name = ''Lethal Company'', game_steam_id = 1966720,
          game_mod_loader = ''BepInEx'', game_override_path = None, game_is_favorite = False\<rparr>,
         \<lparr>game_id = 2, game_name = ''Content Warning'', game_slug = ''content-warning'',
          game_steam_dir_name = ''Content Warning'', game_steam_id = 2881650,
          game_mod_loader = ''BepInEx'', game_override_path = None, game_is_favorite = False\<rparr>],
      categories = [], package_categories = [], packages = [], packages_fts = [],
      versions = [], dependencies = [], profiles = [], profile_mods = []\<rparr>"

text \<open>
  A statement that violates a constraint is rejected and changes nothing. The
  \<^verbatim>\<open>REFERENCES\<close> clauses are modelled as enforced foreign keys: a child row needs its parent,
  \<^verbatim>\<open>ON DELETE CASCADE\<close> removes the children with the parent, and a clause without an action
  rejects the removal of a parent that still has children. Every column of the rows below is
  \<^verbatim>\<open>NOT NULL\<close> unless it is an option, so a missing value can only arise where a value is
  computed (\<open>NotNullViolation\<close>).
\<close>

datatype db_error = UniqueViolation | ForeignKeyViolation | NotNullViolation

subsection \<open>The triggers on \<^verbatim>\<open>packages\<close>\<close>

text \<open>\<^verbatim>\<open>CREATE TRIGGER insert_package_fts AFTER INSERT ON packages BEGIN
  INSERT INTO packages_fts(package_id, name, description, owner)
  VALUES (NEW.id, NEW.name, NEW.description, NEW.owner); END;\<close>\<close>

definition insert_package_fts :: "package \<Rightarrow> db \<Rightarrow> db" where
  "insert_package_fts new d =
     d\<lparr>packages_fts := packages_fts d @
        [\<lparr>fts_package_id = pkg_id new, fts_name = pkg_name new,
          fts_description = pkg_description new, fts_owner = pkg_owner new\<rparr>]\<rparr>"

text \<open>\<^verbatim>\<open>CREATE TRIGGER update_package_fts AFTER UPDATE ON packages BEGIN
  UPDATE packages_fts SET name = NEW.name, description = NEW.description, owner = NEW.owner
  WHERE package_id = NEW.id; END;\<close>\<close>

definition update_package_fts :: "package \<Rightarrow> db \<Rightarrow> db" where
  "update_package_fts new d =
     d\<lparr>packages_fts :=
        map (\<lambda>r. if fts_package_id r = pkg_id new
                  then r\<lparr>fts_name := pkg_name new, fts_description := pkg_description new,
                         fts_owner := pkg_owner new\<rparr>
                  else r) (packages_fts d)\<rparr>"

text \<open>\<^verbatim>\<open>CREATE TRIGGER delete_package_fts AFTER DELETE ON packages BEGIN
  DELETE FROM packages_fts WHERE package_id = OLD.id; END;\<close>\<close>

definition delete_package_fts :: "package \<Rightarrow> db \<Rightarrow> db" where
  "delete_package_fts old d =
     d\<lparr>packages_fts := filter (\<lambda>r. fts_package_id r \<noteq> pkg_id old) (packages_fts d)\<rparr>"

subsection \<open>Writes to \<^verbatim>\<open>games\<close>, \<^verbatim>\<open>categories\<close> and \<^verbatim>\<open>package_categories\<close>\<close>

text \<open>
  The statements are the single-row \<^verbatim>\<open>INSERT\<close>, \<^verbatim>\<open>UPDATE ... WHERE <key> = ?\<close> (every column
  assigned from the new row) and \<^verbatim>\<open>DELETE ... WHERE <key> = ?\<close> of each table, and for
  \<^verbatim>\<open>packages\<close>, the table with triggers, also \<^verbatim>\<open>INSERT OR REPLACE\<close>. An \<^verbatim>\<open>UPDATE\<close> or
  \<^verbatim>\<open>DELETE\<close> that matches no row succeeds and changes nothing. No \<^verbatim>\<open>REFERENCES\<close> clause of the
  schema has an \<^verbatim>\<open>ON UPDATE\<close> action, so a parent key that children refer to cannot be changed.
\<close>

text \<open>\<^verbatim>\<open>games.id INTEGER PRIMARY KEY AUTOINCREMENT\<close>; an id that the statement leaves out is
  chosen fresh, which is an insert with that id.\<close>

definition insert_game :: "game \<Rightarrow> db \<Rightarrow> db_error + db" where
  "insert_game new d =
     (if game_id new \<in> game_id ` set (games d) then Inl UniqueViolation
      else Inr (d\<lparr>games := games d @ [new]\<rparr>))"

definition update_game :: "int \<Rightarrow> game \<Rightarrow> db \<Rightarrow> db_error + db" where
  "update_game oid new d =
     (if oid \<notin> game_id ` set (games d) then Inr d
      else if game_id new \<noteq> oid \<and> game_id new \<in> game_id ` set (games d) then Inl UniqueViolation
      else if game_id new \<noteq> oid
            \<and> (oid \<in> pkg_game_id ` set (packages d) \<or> oid \<in> prof_game_id ` set (profiles d)
               \<or> oid \<in> cat_community_id ` set (categories d))
      then Inl ForeignKeyViolation
      else Inr (d\<lparr>games := map (\<lambda>g. if game_id g = oid then new else g) (games d)\<rparr>))"

text \<open>
  \<^verbatim>\<open>DELETE FROM games WHERE id = ?\<close>. \<^verbatim>\<open>packages.game_id REFERENCES games(id)\<close> has no
  action, so a game that packages refer to cannot be removed.
  \<^verbatim>\<open>profiles.game_id\<close> and \<^verbatim>\<open>categories.community_id\<close> are \<^verbatim>\<open>ON DELETE CASCADE\<close>, and so are
  \<^verbatim>\<open>profile_mods.profile_id\<close> and \<^verbatim>\<open>package_categories.category_id\<close> below them.
\<close>

definition delete_game :: "int \<Rightarrow> db \<Rightarrow> db_error + db" where
  "delete_game gid d =
     (if gid \<notin> game_id ` set (games d) then Inr d
      else if gid \<in> pkg_game_id ` set (packages d) then Inl ForeignKeyViolation
      else
        (let pids = map prof_id (filter (\<lambda>p. prof_game_id p = gid) (profiles d));
             cids = map cat_id (filter (\<lambda>c. cat_community_id c = gid) (categories d))
         in Inr (d\<lparr>games := filter (\<lambda>g. game_id g \<noteq> gid) (games d),
                  profiles := filter (\<lambda>p. prof_game_id p \<noteq> gid) (profiles d),
                  profile_mods := filter (\<lambda>m. pmod_profile_id m \<notin> set pids) (profile_mods d),
                  categories := filter (\<lambda>c. cat_community_id c \<noteq> gid) (categories d),
                  package_categories :=
                    filter (\<lambda>c. pc_category_id c \<notin> set cids) (package_categories d)\<rparr>)))"

text \<open>\<^verbatim>\<open>categories.id INTEGER NOT NULL PRIMARY KEY\<close>,
  \<^verbatim>\<open>community_id INTEGER NOT NULL REFERENCES games(id) ON DELETE CASCADE\<close>.\<close>

definition insert_category :: "category \<Rightarrow> db \<Rightarrow> db_error + db" where
  "insert_category new d =
     (if cat_id new \<in> cat_id ` set (categories d) then Inl UniqueViolation
      else if cat_community_id new \<notin> game_id ` set (games d) then Inl ForeignKeyViolation
      else Inr (d\<lparr>categories := categories d @ [new]\<rparr>))"

definition update_category :: "int \<Rightarrow> category \<Rightarrow> db \<Rightarrow> db_error + db" where
  "update_category oid new d =
     (if oid \<notin> cat_id ` set (categories d) then Inr d
      else if cat_id new \<noteq> oid \<and> cat_id new \<in> cat_id ` set (categories d) then Inl UniqueViolation
      else if cat_community_id new \<notin> game_id ` set (games d) then Inl ForeignKeyViolation
      else if cat_id new \<noteq> oid \<and> oid \<in> pc_category_id ` set (package_categories d)
      then Inl ForeignKeyViolation
      else Inr (d\<lparr>categories := map (\<lambda>c. if cat_id c = oid then new else c) (categories d)\<rparr>))"

definition delete_category :: "int \<Rightarrow> db \<Rightarrow> db_error + db" where
  "delete_category cid d =
     (if cid \<notin> cat_id ` set (categories d) then Inr d
      else Inr (d\<lparr>categories := filter (\<lambda>c. cat_id c \<noteq> cid) (categories d),
                 package_categories :=
                   filter (\<lambda>c. pc_category_id c \<noteq> cid) (package_categories d)\<rparr>))"

text \<open>\<^verbatim>\<open>PRIMARY KEY (package_id, category_id)\<close>, both columns foreign keys.\<close>

definition pc_key :: "package_category \<Rightarrow> uuid \<times> int" where
  "pc_key c = (pc_package_id c, pc_category_id c)"

definition insert_package_category :: "package_category \<Rightarrow> db \<Rightarrow> db_error + db" where
  "insert_package_category new d =
     (if pc_key new \<in> pc_key ` set (package_categories d) then Inl UniqueViolation
      else if pc_package_id new \<notin> pkg_id ` set (packages d)
            \<or> pc_category_id new \<notin> cat_id ` set (categories d)
      then Inl ForeignKeyViolation
      else Inr (d\<lparr>package_categories := package_categories d @ [new]\<rparr>))"

definition update_package_category ::
  "uuid \<times> int \<Rightarrow> package_category \<Rightarrow> db \<Rightarrow> db_error + db" where
  "update_package_category k new d =
     (if k \<notin> pc_key ` set (package_categories d) then Inr d
      else if pc_key new \<noteq> k \<and> pc_key new \<in> pc_key ` set (package_categories d)
      then Inl UniqueViolation
      else if pc_package_id new \<notin> pkg_id ` set (packages d)
            \<or> pc_category_id new \<notin> cat_id ` set (categories d)
      then Inl ForeignKeyViolation
      else Inr (d\<lparr>package_categories :=
                   map (\<lambda>c. if pc_key c = k then new else c) (package_categories d)\<rparr>))"

definition delete_package_category :: "uuid \<times> int \<Rightarrow> db \<Rightarrow> db_error + db" where
  "delete_package_category k d =
     Inr (d\<lparr>package_categories := filter (\<lambda>c. pc_key c \<noteq> k) (package_categories d)\<rparr>)"

subsection \<open>Writes to \<^verbatim>\<open>packages\<close>\<close>

text \<open>\<^verbatim>\<open>INSERT INTO packages\<close>: \<^verbatim>\<open>id UUID PRIMARY KEY NOT NULL\<close>,
  \<^verbatim>\<open>game_id INTEGER NOT NULL REFERENCES games(id)\<close>; \<^verbatim>\<open>latest_version_id UUID NOT NULL\<close>
  carries no \<^verbatim>\<open>REFERENCES\<close> clause. The insert trigger runs with the new row.\<close>

definition insert_package :: "package \<Rightarrow> db \<Rightarrow> db_error + db" where
  "insert_package new d =
     (if pkg_id new \<in> pkg_id ` set (packages d) then Inl UniqueViolation
      else if pkg_game_id new \<notin> game_id ` set (games d) then Inl ForeignKeyViolation
      else Inr (insert_package_fts new (d\<lparr>packages := packages d @ [new]\<rparr>)))"

text \<open>
  \<^verbatim>\<open>INSERT OR REPLACE INTO packages\<close>: a stored row with the new row's id is removed to make room,
  together with the rows that cascade from it, and the new row is inserted. The insert trigger
  runs with the new row. For the row that the conflict resolution removes, the engine runs
  delete triggers only when recursive triggers are switched on, and they are off unless a
  connection asks for them; so \<^verbatim>\<open>delete_package_fts\<close> does not run.
\<close>

definition insert_or_replace_package :: "package \<Rightarrow> db \<Rightarrow> db_error + db" where
  "insert_or_replace_package new d =
     (if pkg_game_id new \<notin> game_id ` set (games d) then Inl ForeignKeyViolation
      else if pkg_id new \<in> pkg_id ` set (packages d)
      then
        (let vids = map ver_id (filter (\<lambda>v. ver_package_id v = pkg_id new) (versions d))
         in Inr (insert_package_fts new
              (d\<lparr>packages := filter (\<lambda>p. pkg_id p \<noteq> pkg_id new) (packages d) @ [new],
                 versions := filter (\<lambda>v. ver_package_id v \<noteq> pkg_id new) (versions d),
                 dependencies :=
                   filter (\<lambda>e. dep_dependent_id e \<notin> set vids) (dependencies d),
                 package_categories :=
                   filter (\<lambda>c. pc_package_id c \<noteq> pkg_id new) (package_categories d)\<rparr>)))
      else Inr (insert_package_fts new (d\<lparr>packages := packages d @ [new]\<rparr>)))"

text \<open>
  \<^verbatim>\<open>UPDATE packages SET ... WHERE id = ?\<close>, every column assigned from \<open>new\<close>. With no matching
  row nothing happens. A changed id must be free and must not orphan the \<^verbatim>\<open>versions\<close> and
  \<^verbatim>\<open>package_categories\<close> rows that refer to the old one. The update trigger runs with the new
  row.
\<close>

definition update_package :: "uuid \<Rightarrow> package \<Rightarrow> db \<Rightarrow> db_error + db" where
  "update_package oid new d =
     (if oid \<notin> pkg_id ` set (packages d) then Inr d
      else if pkg_id new \<noteq> oid \<and> pkg_id new \<in> pkg_id ` set (packages d) then Inl UniqueViolation
      else if pkg_game_id new \<notin> game_id ` set (games d) then Inl ForeignKeyViolation
      else if pkg_id new \<noteq> oid
            \<and> (oid \<in> ver_package_id ` set (versions d)
               \<or> oid \<in> pc_package_id ` set (package_categories d))
      then Inl ForeignKeyViolation
      else Inr (update_package_fts new
             (d\<lparr>packages := map (\<lambda>p. if pkg_id p = oid then new else p) (packages d)\<rparr>)))"

text \<open>
  \<^verbatim>\<open>DELETE FROM packages WHERE id = ?\<close>. \<^verbatim>\<open>versions.package_id\<close> and
  \<^verbatim>\<open>package_categories.package_id\<close> are \<^verbatim>\<open>ON DELETE CASCADE\<close>, and
  \<^verbatim>\<open>dependencies.dependent_id\<close> cascades from the removed versions. The delete trigger runs
  with the old row.
\<close>

definition delete_package :: "uuid \<Rightarrow> db \<Rightarrow> db_error + db" where
  "delete_package oid d =
     (case find (\<lambda>p. pkg_id p = oid) (packages d) of
        None \<Rightarrow> Inr d
      | Some old \<Rightarrow>
          (let vids = map ver_id (filter (\<lambda>v. ver_package_id v = oid) (versions d))
           in Inr (delete_package_fts old
                (d\<lparr>packages := filter (\<lambda>p. pkg_id p \<noteq> oid) (packages d),
                   versions := filter (\<lambda>v. ver_package_id v \<noteq> oid) (versions d),
                   dependencies :=
                     filter (\<lambda>e. dep_dependent_id e \<notin> set vids) (dependencies d),
                   package_categories :=
                     filter (\<lambda>c. pc_package_id c \<noteq> oid) (package_categories d)\<rparr>))))"

subsection \<open>Writes to \<^verbatim>\<open>versions\<close> and \<^verbatim>\<open>dependencies\<close>\<close>

text \<open>\<^verbatim>\<open>versions.id UUID NOT NULL PRIMARY KEY\<close>,
  \<^verbatim>\<open>package_id UUID NOT NULL REFERENCES packages(id) ON DELETE CASCADE\<close>.\<close>

definition insert_version :: "version \<Rightarrow> db \<Rightarrow> db_error + db" where
  "insert_version new d =
     (if ver_id new \<in> ver_id ` set (versions d) then Inl UniqueViolation
      else if ver_package_id new \<notin> pkg_id ` set (packages d) then Inl ForeignKeyViolation
      else Inr (d\<lparr>versions := versions d @ [new]\<rparr>))"

definition update_version :: "uuid \<Rightarrow> version \<Rightarrow> db \<Rightarrow> db_error + db" where
  "update_version oid new d =
     (if oid \<notin> ver_id ` set (versions d) then Inr d
      else if ver_id new \<noteq> oid \<and> ver_id new \<in> ver_id ` set (versions d) then Inl UniqueViolation
      else if ver_package_id new \<notin> pkg_id ` set (packages d) then Inl ForeignKeyViolation
      else if ver_id new \<noteq> oid \<and> oid \<in> dep_dependent_id ` set (dependencies d)
      then Inl ForeignKeyViolation
      else Inr (d\<lparr>versions := map (\<lambda>v. if ver_id v = oid then new else v) (versions d)\<rparr>))"

definition delete_version :: "uuid \<Rightarrow> db \<Rightarrow> db_error + db" where
  "delete_version vid d =
     Inr (d\<lparr>versions := filter (\<lambda>v. ver_id v \<noteq> vid) (versions d),
            dependencies :=
              (if vid \<in> ver_id ` set (versions d)
               then filter (\<lambda>e. dep_dependent_id e \<noteq> vid) (dependencies d)
               else dependencies d)\<rparr>)"

text \<open>\<^verbatim>\<open>dependent_id UUID NOT NULL REFERENCES versions(id) ON DELETE CASCADE\<close>,
  \<^verbatim>\<open>PRIMARY KEY (dependent_id, owner, name)\<close>. The columns \<^verbatim>\<open>owner\<close> and \<^verbatim>\<open>name\<close> are plain
  \<^verbatim>\<open>TEXT NOT NULL\<close>: no clause ties them to a row of \<^verbatim>\<open>packages\<close> or \<^verbatim>\<open>versions\<close>.\<close>

definition dep_key :: "dependency \<Rightarrow> uuid \<times> string \<times> string" where
  "dep_key e = (dep_dependent_id e, dep_owner e, dep_name e)"

definition insert_dependency :: "dependency \<Rightarrow> db \<Rightarrow> db_error + db" where
  "insert_dependency new d =
     (if dep_key new \<in> dep_key ` set (dependencies d) then Inl UniqueViolation
      else if dep_dependent_id new \<notin> ver_id ` set (versions d) then Inl ForeignKeyViolation
      else Inr (d\<lparr>dependencies := dependencies d @ [new]\<rparr>))"

definition update_dependency ::
  "uuid \<times> string \<times> string \<Rightarrow> dependency \<Rightarrow> db \<Rightarrow> db_error + db" where
  "update_dependency k new d =
     (if k \<notin> dep_key ` set (dependencies d) then Inr d
      else if dep_key new \<noteq> k \<and> dep_key new \<in> dep_key ` set (dependencies d)
      then Inl UniqueViolation
      else if dep_dependent_id new \<notin> ver_id ` set (versions d) then Inl ForeignKeyViolation
      else Inr (d\<lparr>dependencies :=
                   map (\<lambda>e. if dep_key e = k then new else e) (dependencies d)\<rparr>))"

definition delete_dependency :: "uuid \<times> string \<times> string \<Rightarrow> db \<Rightarrow> db_error + db" where
  "delete_dependency k d =
     Inr (d\<lparr>dependencies := filter (\<lambda>e. dep_key e \<noteq> k) (dependencies d)\<rparr>)"

subsection \<open>Writes to \<^verbatim>\<open>profiles\<close> and \<^verbatim>\<open>profile_mods\<close>\<close>

text \<open>\<^verbatim>\<open>profiles.id INTEGER NOT NULL PRIMARY KEY\<close>,
  \<^verbatim>\<open>game_id INTEGER NOT NULL REFERENCES games(id) ON DELETE CASCADE\<close>.\<close>

definition insert_profile :: "profile \<Rightarrow> db \<Rightarrow> db_error + db" where
  "insert_profile new d =
     (if prof_id new \<in> prof_id ` set (profiles d) then Inl UniqueViolation
      else if prof_game_id new \<notin> game_id ` set (games d) then Inl ForeignKeyViolation
      else Inr (d\<lparr>profiles := profiles d @ [new]\<rparr>))"

definition update_profile :: "int \<Rightarrow> profile \<Rightarrow> db \<Rightarrow> db_error + db" where
  "update_profile oid new d =
     (if oid \<notin> prof_id ` set (profiles d) then Inr d
      else if prof_id new \<noteq> oid \<and> prof_id new \<in> prof_id ` set (profiles d)
      then Inl UniqueViolation
      else if prof_game_id new \<notin> game_id ` set (games d) then Inl ForeignKeyViolation
      else if prof_id new \<noteq> oid \<and> oid \<in> pmod_profile_id ` set (profile_mods d)
      then Inl ForeignKeyViolation
      else Inr (d\<lparr>profiles := map (\<lambda>p. if prof_id p = oid then new else p) (profiles d)\<rparr>))"

text \<open>\<^verbatim>\<open>DELETE FROM profiles WHERE id = ?\<close>;
  \<^verbatim>\<open>profile_mods.profile_id REFERENCES profiles(id) ON DELETE CASCADE\<close>.\<close>

definition delete_profile :: "int \<Rightarrow> db \<Rightarrow> db_error + db" where
  "delete_profile pid d =
     (if pid \<notin> prof_id ` set (profiles d) then Inr d
      else Inr (d\<lparr>profiles := filter (\<lambda>p. prof_id p \<noteq> pid) (profiles d),
                 profile_mods := filter (\<lambda>m. pmod_profile_id m \<noteq> pid) (profile_mods d)\<rparr>))"

text \<open>\<^verbatim>\<open>profile_mods.id INTEGER NOT NULL PRIMARY KEY\<close>,
  \<^verbatim>\<open>profile_id INTEGER NOT NULL REFERENCES profiles(id) ON DELETE CASCADE\<close>.\<close>

definition insert_profile_mod :: "profile_mod \<Rightarrow> db \<Rightarrow> db_error + db" where
  "insert_profile_mod new d =
     (if pmod_id new \<in> pmod_id ` set (profile_mods d) then Inl UniqueViolation
      else if pmod_profile_id new \<notin> prof_id ` set (profiles d) then Inl ForeignKeyViolation
      else Inr (d\<lparr>profile_mods := profile_mods d @ [new]\<rparr>))"

definition update_profile_mod :: "int \<Rightarrow> profile_mod \<Rightarrow> db \<Rightarrow> db_error + db" where
  "update_profile_mod oid new d =
     (if oid \<notin> pmod_id ` set (profile_mods d) then Inr d
      else if pmod_id new \<noteq> oid \<and> pmod_id new \<in> pmod_id ` set (profile_mods d)
      then Inl UniqueViolation
      else if pmod_profile_id new \<notin> prof_id ` set (profiles d) then Inl ForeignKeyViolation
      else Inr (d\<lparr>profile_mods :=
                   map (\<lambda>m. if pmod_id m = oid then new else m) (profile_mods d)\<rparr>))"

definition delete_profile_mod :: "int \<Rightarrow> db \<Rightarrow> db_error + db" where
  "delete_profile_mod mid d =
     Inr (d\<lparr>profile_mods := filter (\<lambda>m. pmod_id m \<noteq> mid) (profile_mods d)\<rparr>)"

subsection \<open>Sequences of statements\<close>

datatype stmt =
    InsertGame game
  | UpdateGame int game
  | DeleteGame int
  | InsertCategory category
  | UpdateCategory int category
  | DeleteCategory int
  | InsertPackageCategory package_category
  | UpdatePackageCategory "uuid \<times> int" package_category
  | DeletePackageCategory "uuid \<times> int"
  | InsertPackage package
  | InsertOrReplacePackage package
  | UpdatePackage uuid package
  | DeletePackage uuid
  | InsertVersion version
  | UpdateVersion uuid version
  | DeleteVersion uuid
  | InsertDependency dependency
  | UpdateDependency "uuid \<times> string \<times> string" dependency
  | DeleteDependency "uuid \<times> string \<times> string"
  | InsertProfile profile
  | UpdateProfile int profile
  | DeleteProfile int
  | InsertProfileMod profile_mod
  | UpdateProfileMod int profile_mod
  | DeleteProfileMod int

fun exec :: "stmt \<Rightarrow> db \<Rightarrow> db_error + db" where
  "exec (InsertGame g) d = insert_game g d"
| "exec (UpdateGame gid g) d = update_game gid g d"
| "exec (DeleteGame gid) d = delete_game gid d"
| "exec (InsertCategory c) d = insert_category c d"
| "exec (UpdateCategory cid c) d = update_category cid c d"
| "exec (DeleteCategory cid) d = delete_category cid d"
| "exec (InsertPackageCategory c) d = insert_package_category c d"
| "exec (UpdatePackageCategory k c) d = update_package_category k c d"
| "exec (DeletePackageCategory k) d = delete_package_category k d"
| "exec (InsertPackage p) d = insert_package p d"
| "exec (InsertOrReplacePackage p) d = insert_or_replace_package p d"
| "exec (UpdatePackage oid p) d = update_package oid p d"
| "exec (DeletePackage oid) d = delete_package oid d"
| "exec (InsertVersion v) d = insert_version v d"
| "exec (UpdateVersion vid v) d = update_version vid v d"
| "exec (DeleteVersion vid) d = delete_version vid d"
| "exec (InsertDependency e) d = insert_dependency e d"
| "exec (UpdateDependency k e) d = update_dependency k e d"
| "exec (DeleteDependency k) d = delete_dependency k d"
| "exec (InsertProfile p) d = insert_profile p d"
| "exec (UpdateProfile pid p) d = update_profile pid p d"
| "exec (DeleteProfile pid) d = delete_profile pid d"
| "exec (InsertProfileMod m) d = insert_profile_mod m d"
| "exec (UpdateProfileMod mid m) d = update_profile_mod mid m d"
| "exec (DeleteProfileMod mid) d = delete_profile_mod mid d"

text \<open>The store after a sequence of statements: a rejected statement leaves it as it was and
  the sequence goes on.\<close>

fun run :: "stmt list \<Rightarrow> db \<Rightarrow> db" where
  "run [] d = d"
| "run (st # sts) d = run sts (case exec st d of Inl e \<Rightarrow> d | Inr d' \<Rightarrow> d')"

section \<open>Consistency conditions of the store\<close>

text \<open>The shadow row that the insert trigger writes for a package row.\<close>

definition fts_row_of :: "package \<Rightarrow> fts_row" where
  "fts_row_of p =
     \<lparr>fts_package_id = pkg_id p, fts_name = pkg_name p,
      fts_description = pkg_description p, fts_owner = pkg_owner p\<rparr>"

text \<open>The index is synchronised when every package row has exactly one shadow row carrying its
  id, and that row holds the package's current name, description and owner, and no shadow row
  is left over for an id that has no package row.\<close>

definition fts_synced :: "db \<Rightarrow> bool" where
  "fts_synced d \<longleftrightarrow>
     (\<forall>p \<in> set (packages d).
        filter (\<lambda>r. fts_package_id r = pkg_id p) (packages_fts d) = [fts_row_of p])
   \<and> (\<forall>r \<in> set (packages_fts d). fts_package_id r \<in> pkg_id ` set (packages d))"

text \<open>A stronger form, kept by every statement: the index lists the shadow rows of the package
  rows in table order, and the package ids are distinct.\<close>

definition fts_exact :: "db \<Rightarrow> bool" where
  "fts_exact d \<longleftrightarrow>
     packages_fts d = map fts_row_of (packages d) \<and> distinct (map pkg_id (packages d))"

text \<open>Every statement but the two writes of a package row that the triggers do not follow: an
  \<^verbatim>\<open>INSERT OR REPLACE\<close>, and an \<^verbatim>\<open>UPDATE\<close> that changes the row's id.\<close>

fun followed :: "stmt \<Rightarrow> bool" where
  "followed (UpdatePackage oid p) = (pkg_id p = oid)"
| "followed (InsertOrReplacePackage p) = False"
| "followed _ = True"

text \<open>Every package row refers to an existing game.\<close>

definition game_refs_ok :: "db \<Rightarrow> bool" where
  "game_refs_ok d \<longleftrightarrow> (\<forall>p \<in> set (packages d). pkg_game_id p \<in> game_id ` set (games d))"

text \<open>Every package row's \<^verbatim>\<open>latest_version_id\<close> is the id of a version row of that package;
  every version row refers to an existing package.\<close>

definition latest_ok :: "db \<Rightarrow> bool" where
  "latest_ok d \<longleftrightarrow>
     (\<forall>p \<in> set (packages d). \<exists>v \<in> set (versions d).
        ver_id v = pkg_latest_version_id p \<and> ver_package_id v = pkg_id p)"

definition version_refs_ok :: "db \<Rightarrow> bool" where
  "version_refs_ok d \<longleftrightarrow> (\<forall>v \<in> set (versions d). ver_package_id v \<in> pkg_id ` set (packages d))"

section \<open>Package Catalog: \<^verbatim>\<open>upsertPackage\<close>\<close>

text \<open>Modelled from the spec: the semantic triple \<^verbatim>\<open>(major, minor, patch)\<close> of a version row. The
  columns are in the schema; the catalog code that reads them as a triple is not part of the
  sources.\<close>

type_synonym semver = "int \<times> int \<times> int"

definition triple :: "version \<Rightarrow> semver" where
  "triple v = (ver_major v, ver_minor v, ver_patch v)"

text \<open>Modelled from the spec: the comparison of triples, which the sources do not contain:
  "per-field lexicographic comparison: major first, then minor, then patch".\<close>

fun triple_le :: "semver \<Rightarrow> semver \<Rightarrow> bool" where
  "triple_le (a1, a2, a3) (b1, b2, b3) \<longleftrightarrow>
     a1 < b1 \<or> (a1 = b1 \<and> (a2 < b2 \<or> (a2 = b2 \<and> a3 \<le> b3)))"

text \<open>Modelled from the spec: the selection of "the version with the greatest
  \<^verbatim>\<open>(major, minor, patch)\<close> lexicographic triple", missing from the sources: one pass over the
  versions that keeps the greatest seen so far (the earlier one among equals).\<close>

fun latest_version :: "version \<Rightarrow> version list \<Rightarrow> version" where
  "latest_version best [] = best"
| "latest_version best (v # vs) =
     latest_version (if triple_le (triple v) (triple best) then best else v) vs"

text \<open>Modelled from the spec: the insertion of a package's version set, missing from the
  sources, as one \<^verbatim>\<open>INSERT INTO versions\<close> per version; the first rejected row aborts.\<close>

fun insert_versions :: "version list \<Rightarrow> db \<Rightarrow> db_error + db" where
  "insert_versions [] d = Inr d"
| "insert_versions (v # vs) d =
     (case insert_version v d of Inl e \<Rightarrow> Inl e | Inr d' \<Rightarrow> insert_versions vs d')"

text \<open>
  Modelled from the spec: \<^verbatim>\<open>upsertPackage(pkg, versions[])\<close> of the Package Catalog, whose code
  is not part of the sources: it "inserts or replaces a package and its version set" and
  "recomputes \<^verbatim>\<open>latest_version_id\<close> as the version with the greatest (major, minor, patch)
  lexicographic triple". A package row of the same id is removed with everything that cascades
  from it, the row is written with the recomputed \<^verbatim>\<open>latest_version_id\<close>, and the versions are
  inserted as versions of this package. The whole call is one transaction: the first rejected
  statement is the result and nothing is kept. With no version there is no greatest one and the
  \<^verbatim>\<open>NOT NULL\<close> column \<^verbatim>\<open>latest_version_id\<close> has no value.
\<close>

definition upsertPackage :: "package \<Rightarrow> version list \<Rightarrow> db \<Rightarrow> db_error + db" where
  "upsertPackage pkg vs d =
     (case vs of
        [] \<Rightarrow> Inl NotNullViolation
      | v # rest \<Rightarrow>
          (case delete_package (pkg_id pkg) d of
             Inl e \<Rightarrow> Inl e
           | Inr d1 \<Rightarrow>
               (case insert_package
                       (pkg\<lparr>pkg_latest_version_id := ver_id (latest_version v rest)\<rparr>) d1 of
                  Inl e \<Rightarrow> Inl e
                | Inr d2 \<Rightarrow>
                    insert_versions (map (\<lambda>w. w\<lparr>ver_package_id := pkg_id pkg\<rparr>) vs) d2)))"

text \<open>
  Modelled from the spec: the writes through which the Package Catalog changes \<^verbatim>\<open>packages\<close> and
  \<^verbatim>\<open>versions\<close>, whose code is not part of the sources: \<^verbatim>\<open>upsertPackage\<close>, and the deletion of a
  package, from which the deletion of its versions cascades ("versions are never mutated after
  insertion except \<^verbatim>\<open>is_active\<close>; deletion cascades from package deletion"). "All other
  components access rows only through the Package Catalog / Profile Store APIs", so the stores
  the catalog reaches are the results of sequences of these calls, a failed call leaving the
  store as it was.
\<close>

datatype catalog_op = Upsert package "version list" | Remove uuid

fun catalog_call :: "catalog_op \<Rightarrow> db \<Rightarrow> db_error + db" where
  "catalog_call (Upsert pkg vs) d = upsertPackage pkg vs d"
| "catalog_call (Remove oid) d = delete_package oid d"

fun catalog_run :: "catalog_op list \<Rightarrow> db \<Rightarrow> db" where
  "catalog_run [] d = d"
| "catalog_run (c # cs) d =
     catalog_run cs (case catalog_call c d of Inl e \<Rightarrow> d | Inr d' \<Rightarrow> d')"

section \<open>Dependency Resolver\<close>

text \<open>
  The resolver is specified over the catalog tables above; none of its code is part of the
  sources. A package is named by its \<^verbatim>\<open>(owner, name)\<close> pair, as the columns of
  \<^verbatim>\<open>dependencies\<close> name the target of an edge.
\<close>

type_synonym pkg_key = "string \<times> string"

text \<open>Modelled from the spec: \<^verbatim>\<open>getDependencyEdges(versionId)\<close>, missing from the sources:
  "the declared (owner, name, minVersion) requirements for one version, insertion order
  preserved", read from the \<^verbatim>\<open>dependencies\<close> table.\<close>

definition getDependencyEdges :: "uuid \<Rightarrow> db \<Rightarrow> (pkg_key \<times> semver) list" where
  "getDependencyEdges vid d =
     map (\<lambda>e. ((dep_owner e, dep_name e), (dep_major e, dep_minor e, dep_patch e)))
       (filter (\<lambda>e. dep_dependent_id e = vid) (dependencies d))"

text \<open>Modelled from the spec: the identity \<^verbatim>\<open>(owner, name)\<close> under which a dependency edge
  names a package; the lookup code is missing from the sources. A version row belongs to the
  package row that its \<^verbatim>\<open>package_id\<close> names.\<close>

definition package_key :: "db \<Rightarrow> version \<Rightarrow> pkg_key option" where
  "package_key d v =
     map_option (\<lambda>p. (pkg_owner p, pkg_name p))
       (find (\<lambda>p. pkg_id p = ver_package_id v) (packages d))"

text \<open>Modelled from the spec: the versions of a named package that the catalog holds, in
  table order (the candidates of an edge); missing from the sources.\<close>

definition versions_of :: "pkg_key \<Rightarrow> db \<Rightarrow> version list" where
  "versions_of k d = filter (\<lambda>v. package_key d v = Some k) (versions d)"

text \<open>Modelled from the spec: the candidate choice of the resolver, missing from the sources:
  "the candidate version of the named package with the greatest triple satisfying
  \<^verbatim>\<open>candidate >= minVersion\<close>".\<close>

definition best_candidate :: "pkg_key \<Rightarrow> semver \<Rightarrow> db \<Rightarrow> version option" where
  "best_candidate k f d =
     (case filter (\<lambda>v. triple_le f (triple v)) (versions_of k d) of
        [] \<Rightarrow> None
      | v # vs \<Rightarrow> Some (latest_version v vs))"

text \<open>Modelled from the spec: the "unsatisfiable dependency" result, "naming the missing
  package/floor and the requiring version"; the result type is missing from the sources. A
  requested root has no requiring version.\<close>

datatype resolve_error = Unsatisfiable pkg_key semver "uuid option"

text \<open>Modelled from the spec: the working state of the resolver (missing from the sources):
  for each package reached so far, the single highest floor met and the version chosen.\<close>

type_synonym chosen = "pkg_key \<rightharpoonup> semver \<times> version"

text \<open>
  Modelled from the spec: the treatment of one edge, missing from the sources. A package
  reached for the first time gets its best candidate, or the resolution fails. A package reached
  again "keeps the single highest floor and re-validates the previously chosen candidate still
  satisfies it; if not, it upgrades to the new highest-satisfying candidate and re-scans that
  candidate's own edges". The second component of the result lists the versions to scan.
\<close>

definition require :: "db \<Rightarrow> uuid \<Rightarrow> pkg_key \<times> semver \<Rightarrow> chosen \<Rightarrow> resolve_error + chosen \<times> version list" where
  "require d requirer e c =
     (case e of (k, f) \<Rightarrow>
        (case c k of
           None \<Rightarrow>
             (case best_candidate k f d of
                None \<Rightarrow> Inl (Unsatisfiable k f (Some requirer))
              | Some v \<Rightarrow> Inr (c(k \<mapsto> (f, v)), [v]))
         | Some (f0, v0) \<Rightarrow>
             (let f1 = (if triple_le f f0 then f0 else f)
              in if triple_le f1 (triple v0) then Inr (c(k \<mapsto> (f1, v0)), [])
                 else (case best_candidate k f1 d of
                         None \<Rightarrow> Inl (Unsatisfiable k f1 (Some requirer))
                       | Some v \<Rightarrow> Inr (c(k \<mapsto> (f1, v)), [v])))))"

text \<open>Modelled from the spec: the edges of one visited version, taken in the order
  \<^verbatim>\<open>getDependencyEdges\<close> returns them; the first unsatisfiable edge ends the resolution. Missing
  from the sources.\<close>

fun scan_edges :: "db \<Rightarrow> uuid \<Rightarrow> (pkg_key \<times> semver) list \<Rightarrow> chosen \<Rightarrow> resolve_error + chosen \<times> version list" where
  "scan_edges d requirer [] c = Inr (c, [])"
| "scan_edges d requirer (e # es) c =
     (case require d requirer e c of
        Inl err \<Rightarrow> Inl err
      | Inr (c1, new1) \<Rightarrow>
          (case scan_edges d requirer es c1 of
             Inl err \<Rightarrow> Inl err
           | Inr (c2, new2) \<Rightarrow> Inr (c2, new1 @ new2)))"

text \<open>The number of version rows that the resolver may still choose: those of packages not
  reached yet, and those above the version chosen for their package. It bounds the work left.\<close>

definition unexplored :: "db \<Rightarrow> chosen \<Rightarrow> nat" where
  "unexplored d c =
     length (filter (\<lambda>v. case package_key d v of
                           None \<Rightarrow> False
                         | Some k \<Rightarrow> (case c k of
                                       None \<Rightarrow> True
                                     | Some (f, v0) \<Rightarrow> \<not> triple_le (triple v) (triple v0)))
               (versions d))"

subsection \<open>The closure terminates\<close>

lemma triple_le_refl: "triple_le a a"
  by (cases a) auto

lemma triple_le_trans: "triple_le a b \<Longrightarrow> triple_le b c \<Longrightarrow> triple_le a c"
  by (cases a; cases b; cases c) auto

lemma triple_le_total: "triple_le a b \<or> triple_le b a"
  by (cases a; cases b) auto

lemma latest_version_mem: "latest_version b vs \<in> set (b # vs)"
  by (induction vs arbitrary: b) (auto split: if_splits)

lemma latest_version_ge_best: "triple_le (triple b) (triple (latest_version b vs))"
proof (induction vs arbitrary: b)
  case Nil
  show ?case by (simp add: triple_le_refl)
next
  case (Cons v vs)
  show ?case
  proof (cases "triple_le (triple v) (triple b)")
    case True
    then show ?thesis using Cons [of b] by simp
  next
    case False
    then have "triple_le (triple b) (triple v)" using triple_le_total by blast
    then show ?thesis using False Cons [of v] triple_le_trans by auto
  qed
qed

lemma latest_version_greatest:
  "w \<in> set (b # vs) \<Longrightarrow> triple_le (triple w) (triple (latest_version b vs))"
proof (induction vs arbitrary: b)
  case Nil
  then show ?case by (simp add: triple_le_refl)
next
  case (Cons v vs)
  let ?b' = "if triple_le (triple v) (triple b) then b else v"
  have step: "latest_version b (v # vs) = latest_version ?b' vs" by simp
  have b': "triple_le (triple b) (triple ?b')" "triple_le (triple v) (triple ?b')"
    using triple_le_total [of "triple v" "triple b"] by (auto simp: triple_le_refl)
  from Cons.prems consider "w = b" | "w = v" | "w \<in> set vs" by auto
  then show ?case
  proof cases
    case 1
    then show ?thesis
      using b'(1) latest_version_ge_best [of ?b' vs] triple_le_trans unfolding step by blast
  next
    case 2
    then show ?thesis
      using b'(2) latest_version_ge_best [of ?b' vs] triple_le_trans unfolding step by blast
  next
    case 3
    then show ?thesis using Cons.IH [of ?b'] unfolding step by simp
  qed
qed

lemma filter_length_mono:
  "(\<And>x. x \<in> set xs \<Longrightarrow> Q x \<Longrightarrow> P x) \<Longrightarrow> length (filter Q xs) \<le> length (filter P xs)"
  by (induction xs) auto

lemma filter_length_less:
  assumes "\<And>x. x \<in> set xs \<Longrightarrow> Q x \<Longrightarrow> P x" and "v \<in> set xs" and "P v" and "\<not> Q v"
  shows "length (filter Q xs) < length (filter P xs)"
  using assms
proof (induction xs)
  case Nil
  then show ?case by simp
next
  case (Cons x xs)
  have le: "length (filter Q xs) \<le> length (filter P xs)"
    using Cons.prems(1) by (intro filter_length_mono) auto
  show ?case
  proof (cases "v \<in> set xs")
    case True
    with Cons have "length (filter Q xs) < length (filter P xs)" by simp
    with Cons.prems(1) [of x] show ?thesis by auto
  next
    case False
    with Cons.prems have "x = v" by simp
    with Cons.prems le show ?thesis by simp
  qed
qed

lemma best_candidate_Some:
  assumes "best_candidate k f d = Some v"
  shows "v \<in> set (versions_of k d)" and "triple_le f (triple v)"
    and "\<forall>w \<in> set (versions_of k d). triple_le f (triple w) \<longrightarrow> triple_le (triple w) (triple v)"
proof -
  let ?cs = "filter (\<lambda>v. triple_le f (triple v)) (versions_of k d)"
  from assms obtain a as where cs: "?cs = a # as" and v: "v = latest_version a as"
    by (auto simp: best_candidate_def split: list.splits)
  have "v \<in> set ?cs" unfolding cs v by (rule latest_version_mem)
  then show "v \<in> set (versions_of k d)" and "triple_le f (triple v)" by auto
  show "\<forall>w \<in> set (versions_of k d). triple_le f (triple w) \<longrightarrow> triple_le (triple w) (triple v)"
  proof (intro ballI impI)
    fix w assume "w \<in> set (versions_of k d)" "triple_le f (triple w)"
    then have "w \<in> set (a # as)" unfolding cs [symmetric] by simp
    then show "triple_le (triple w) (triple v)" unfolding v by (rule latest_version_greatest)
  qed
qed

lemma best_candidate_None:
  "best_candidate k f d = None \<longleftrightarrow> (\<forall>w \<in> set (versions_of k d). \<not> triple_le f (triple w))"
proof (cases "filter (\<lambda>v. triple_le f (triple v)) (versions_of k d)")
  case Nil
  then show ?thesis by (simp add: best_candidate_def filter_empty_conv)
next
  case (Cons a as)
  then have "a \<in> set (filter (\<lambda>v. triple_le f (triple v)) (versions_of k d))" by simp
  then have "\<exists>w \<in> set (versions_of k d). triple_le f (triple w)" by auto
  with Cons show ?thesis by (simp add: best_candidate_def)
qed

lemma versions_of_mem:
  "v \<in> set (versions_of k d) \<longleftrightarrow> v \<in> set (versions d) \<and> package_key d v = Some k"
  by (auto simp: versions_of_def)

lemma unexplored_choose:
  assumes v: "v \<in> set (versions_of k d)"
    and old: "case c k of None \<Rightarrow> True | Some (f0, v0) \<Rightarrow> \<not> triple_le (triple v) (triple v0)"
  shows "unexplored d (c(k \<mapsto> (f, v))) < unexplored d c"
  unfolding unexplored_def
proof (rule filter_length_less [of _ _ _ v])
  show "v \<in> set (versions d)" using v by (simp add: versions_of_mem)
  show "case package_key d v of None \<Rightarrow> False
        | Some k \<Rightarrow> (case c k of None \<Rightarrow> True | Some (f, v0) \<Rightarrow> \<not> triple_le (triple v) (triple v0))"
    using v old by (simp add: versions_of_mem)
  show "\<not> (case package_key d v of None \<Rightarrow> False
        | Some ka \<Rightarrow> (case (c(k \<mapsto> (f, v))) ka of None \<Rightarrow> True
                     | Some (f, v0) \<Rightarrow> \<not> triple_le (triple v) (triple v0)))"
    using v by (simp add: versions_of_mem triple_le_refl)
next
  fix x
  assume x: "x \<in> set (versions d)"
    and q: "case package_key d x of None \<Rightarrow> False
        | Some ka \<Rightarrow> (case (c(k \<mapsto> (f, v))) ka of None \<Rightarrow> True
                     | Some (f, v0) \<Rightarrow> \<not> triple_le (triple x) (triple v0))"
  show "case package_key d x of None \<Rightarrow> False
        | Some k \<Rightarrow> (case c k of None \<Rightarrow> True | Some (f, v0) \<Rightarrow> \<not> triple_le (triple x) (triple v0))"
  proof (cases "package_key d x")
    case None
    with q show ?thesis by simp
  next
    case (Some ka)
    show ?thesis
    proof (cases "ka = k")
      case False
      with q Some show ?thesis by simp
    next
      case True
      from q Some True have nx: "\<not> triple_le (triple x) (triple v)" by simp
      show ?thesis
      proof (cases "c k")
        case None
        with Some True show ?thesis by simp
      next
        case (Some fv)
        obtain f0 v0 where fv: "fv = (f0, v0)" by (cases fv)
        from old Some fv have "\<not> triple_le (triple v) (triple v0)" by simp
        then have "triple_le (triple v0) (triple v)" using triple_le_total by blast
        with nx have "\<not> triple_le (triple x) (triple v0)" using triple_le_trans by blast
        with \<open>package_key d x = Some ka\<close> True Some fv show ?thesis by simp
      qed
    qed
  qed
qed

lemma unexplored_keep:
  "c k = Some (f0, v0) \<Longrightarrow> unexplored d (c(k \<mapsto> (f1, v0))) = unexplored d c"
  unfolding unexplored_def
  by (rule arg_cong [where f = length], rule filter_cong) (auto split: option.splits)

lemma require_unexplored:
  assumes "require d r e c = Inr (c', new)"
  shows "unexplored d c' + length new \<le> unexplored d c"
proof -
  obtain k f where e: "e = (k, f)" by (cases e)
  show ?thesis
  proof (cases "c k")
    case None
    with assms e obtain v where bc: "best_candidate k f d = Some v"
      and r: "c' = c(k \<mapsto> (f, v))" "new = [v]"
      by (auto simp: require_def split: option.splits)
    from unexplored_choose [of v k d c f] best_candidate_Some(1) [OF bc] None
    show ?thesis unfolding r by simp
  next
    case (Some fv)
    obtain f0 v0 where fv: "fv = (f0, v0)" by (cases fv)
    define f1 where "f1 = (if triple_le f f0 then f0 else f)"
    show ?thesis
    proof (cases "triple_le f1 (triple v0)")
      case True
      with assms e Some fv have "c' = c(k \<mapsto> (f1, v0))" "new = []"
        by (auto simp: require_def f1_def Let_def)
      then show ?thesis using unexplored_keep [of c k f0 v0 d f1] Some fv by simp
    next
      case False
      with assms e Some fv obtain v where bc: "best_candidate k f1 d = Some v"
        and r: "c' = c(k \<mapsto> (f1, v))" "new = [v]"
        by (auto simp: require_def f1_def Let_def split: option.splits)
      from best_candidate_Some(2) [OF bc] False have "\<not> triple_le (triple v) (triple v0)"
        using triple_le_trans by blast
      with unexplored_choose [of v k d c f1] best_candidate_Some(1) [OF bc] Some fv
      show ?thesis unfolding r by simp
    qed
  qed
qed

lemma scan_edges_unexplored:
  "scan_edges d r es c = Inr (c', new) \<Longrightarrow> unexplored d c' + length new \<le> unexplored d c"
proof (induction es arbitrary: c c' new)
  case Nil
  then show ?case by simp
next
  case (Cons e es)
  from Cons.prems obtain c1 new1 c2 new2 where
    a: "require d r e c = Inr (c1, new1)" and b: "scan_edges d r es c1 = Inr (c2, new2)"
    and c: "c' = c2" "new = new1 @ new2"
    by (auto split: sum.splits prod.splits)
  from require_unexplored [OF a] Cons.IH [OF b] c show ?case by simp
qed

text \<open>
  Modelled from the spec: the "breadth-first closure over dependency edges starting from the
  roots", missing from the sources. The queue holds the versions whose edges are still to be
  scanned; a version enters it when it is chosen for its package. Every choice uses up a version
  row that can never be chosen again, so the closure reaches its fixed point: the function is
  total.
\<close>

function closure :: "db \<Rightarrow> version list \<Rightarrow> chosen \<Rightarrow> resolve_error + chosen" where
  "closure d [] c = Inr c"
| "closure d (v # queue) c =
     (case scan_edges d (ver_id v) (getDependencyEdges (ver_id v) d) c of
        Inl err \<Rightarrow> Inl err
      | Inr (c1, new) \<Rightarrow> closure d (queue @ new) c1)"
  by pat_completeness auto
termination
proof (relation "measure (\<lambda>(d, queue, c). unexplored d c + length queue)")
  show "wf (measure (\<lambda>(d, queue, c). unexplored d c + length queue))" by simp
next
  fix d :: db and v :: version and queue :: "version list" and c c1 :: chosen
    and x2 :: "chosen \<times> version list" and new :: "version list"
  assume "scan_edges d (ver_id v) (getDependencyEdges (ver_id v) d) c = Inr x2"
    and "(c1, new) = x2"
  then have "scan_edges d (ver_id v) (getDependencyEdges (ver_id v) d) c = Inr (c1, new)" by simp
  from scan_edges_unexplored [OF this]
  show "((d, queue @ new, c1), (d, v # queue, c)) \<in> measure (\<lambda>(d, queue, c). unexplored d c + length queue)"
    by simp
qed

text \<open>Modelled from the spec: the requested roots \<^verbatim>\<open>(owner, name, version)\<close>, each pinned to
  the catalog's version of that package with exactly that triple; a root the catalog does not
  hold is unsatisfiable. Missing from the sources.\<close>

fun add_roots :: "db \<Rightarrow> (pkg_key \<times> semver) list \<Rightarrow> chosen \<Rightarrow> resolve_error + chosen \<times> version list" where
  "add_roots d [] c = Inr (c, [])"
| "add_roots d ((k, t) # roots) c =
     (case find (\<lambda>v. triple v = t) (versions_of k d) of
        None \<Rightarrow> Inl (Unsatisfiable k t None)
      | Some v \<Rightarrow>
          (case add_roots d roots (c(k \<mapsto> (t, v))) of
             Inl err \<Rightarrow> Inl err
           | Inr (c1, queue) \<Rightarrow> Inr (c1, v # queue)))"

text \<open>Modelled from the spec: \<^verbatim>\<open>resolve(roots)\<close>, missing from the sources. Its output is "a
  mapping from package identity to chosen version id", or the unsatisfiable dependency.\<close>

definition resolve :: "db \<Rightarrow> (pkg_key \<times> semver) list \<Rightarrow> resolve_error + (pkg_key \<rightharpoonup> uuid)" where
  "resolve d roots =
     (case add_roots d roots Map.empty of
        Inl err \<Rightarrow> Inl err
      | Inr (c, queue) \<Rightarrow>
          (case closure d queue c of
             Inl err \<Rightarrow> Inl err
           | Inr c1 \<Rightarrow> Inr (\<lambda>k. map_option (\<lambda>(f, v). ver_id v) (c1 k))))"

text \<open>Two conditions that every step of the closure keeps: each chosen version is a version of
  its package and meets the floor recorded for it; recorded floors never go down.\<close>

definition sound :: "db \<Rightarrow> chosen \<Rightarrow> bool" where
  "sound d c \<longleftrightarrow> (\<forall>k f v. c k = Some (f, v) \<longrightarrow> v \<in> set (versions_of k d) \<and> triple_le f (triple v))"


section \<open>Sample rows and stores\<close>

definition sample_package :: "uuid \<Rightarrow> string \<Rightarrow> package" where
  "sample_package i n =
     \<lparr>pkg_id = i, pkg_name = n, pkg_owner = ''team'', pkg_description = ''a mod'',
      pkg_date_created = ''2024-05-01'', pkg_has_nsfw_content = False, pkg_is_deprecated = False,
      pkg_is_pinned = False, pkg_rating_score = 0, pkg_downloads = 0, pkg_donation_link = None,
      pkg_latest_version_id = i @ ''-latest'', pkg_game_id = 1\<rparr>"

definition sample_version :: "uuid \<Rightarrow> uuid \<Rightarrow> int \<times> int \<times> int \<Rightarrow> version" where
  "sample_version i p t =
     \<lparr>ver_id = i, ver_package_id = p, ver_date_created = ''2024-05-01'', ver_downloads = 0,
      ver_file_size = 1024, ver_is_active = True, ver_website_url = None,
      ver_major = fst t, ver_minor = fst (snd t), ver_patch = snd (snd t)\<rparr>"

definition sample_dependency :: "uuid \<Rightarrow> string \<Rightarrow> int \<times> int \<times> int \<Rightarrow> dependency" where
  "sample_dependency i n t =
     \<lparr>dep_dependent_id = i, dep_owner = ''team'', dep_name = n,
      dep_major = fst t, dep_minor = fst (snd t), dep_patch = snd (snd t)\<rparr>"

definition sample_profile :: "int \<Rightarrow> int \<Rightarrow> profile" where
  "sample_profile i g =
     \<lparr>prof_id = i, prof_name = ''Default'', prof_path = ''profiles/default'',
      prof_is_favorite = False, prof_launch_mode = None, prof_game_id = g\<rparr>"

definition sample_profile_mod :: "int \<Rightarrow> int \<Rightarrow> profile_mod" where
  "sample_profile_mod i p =
     \<lparr>pmod_id = i, pmod_profile_id = p, pmod_enabled = True, pmod_order_index = 0,
      pmod_source = [1, 2, 3]\<rparr>"


text \<open>The same with B published at 1.1.0 only.\<close>

definition catalog_one :: db where
  "catalog_one = seed_db\<lparr>
     packages := [sample_package ''pa'' ''A'', sample_package ''pb'' ''B''],
     packages_fts := [fts_row_of (sample_package ''pa'' ''A''), fts_row_of (sample_package ''pb'' ''B'')],
     versions := [sample_version ''va'' ''pa'' (1, 0, 0), sample_version ''vb1'' ''pb'' (1, 1, 0)],
     dependencies := [sample_dependency ''va'' ''B'' (1, 2, 0)]\<rparr>"




text \<open>Two profiles, one per seeded game, with their mods.\<close>

definition profiles_db :: db where
  "profiles_db = seed_db\<lparr>
     profiles := [sample_profile 1 2, sample_profile 2 1],
     profile_mods := [sample_profile_mod 1 1, sample_profile_mod 2 2, sample_profile_mod 3 1]\<rparr>"

section \<open>Properties of the presentation-layer state\<close>

subsection \<open>Decimal rendering and \<^verbatim>\<open>parseInt\<close> are inverse on integers\<close>

lemma digit_char_value: "d < 10 \<Longrightarrow> digit_value (''0123456789'' ! d) = Some d"
proof -
  assume "d < 10"
  then have "d \<in> {0, 1, 2, 3, 4, 5, 6, 7, 8, 9}" by auto
  then show ?thesis by (auto simp: digit_value_def)
qed

lemma digit_char_plain:
  "d < 10 \<Longrightarrow> \<not> is_space (''0123456789'' ! d) \<and> ''0123456789'' ! d \<noteq> CHR ''-''
      \<and> ''0123456789'' ! d \<noteq> CHR ''+'' \<and> ''0123456789'' ! d \<noteq> CHR ''x''
      \<and> ''0123456789'' ! d \<noteq> CHR ''X''"
proof -
  assume "d < 10"
  then have "d \<in> {0, 1, 2, 3, 4, 5, 6, 7, 8, 9}" by auto
  then show ?thesis by (auto simp: is_space_def)
qed

lemma digits_of_all: "c \<in> set (digits_of n) \<Longrightarrow> \<exists>d<10. c = ''0123456789'' ! d"
proof (induction n rule: digits_of.induct)
  case (1 n)
  show ?case
  proof (cases "n < 10")
    case True
    with "1.prems" show ?thesis by (auto simp: digits_of.simps [of n])
  next
    case False
    from "1.prems" have "c \<in> set (digits_of (n div 10)) \<or> c = ''0123456789'' ! (n mod 10)"
      using False by (auto simp: digits_of.simps [of n])
    then show ?thesis
    proof
      assume "c \<in> set (digits_of (n div 10))"
      with "1.IH" False show ?thesis by blast
    next
      assume "c = ''0123456789'' ! (n mod 10)"
      moreover have "n mod 10 < 10" by simp
      ultimately show ?thesis by blast
    qed
  qed
qed

lemma digits_of_nonempty: "digits_of n \<noteq> []"
  by (simp add: digits_of.simps [of n])

lemma digits_of_value: "digits_value 10 (digits_of n) = n"
proof (induction n rule: digits_of.induct)
  case (1 n)
  show ?case
  proof (cases "n < 10")
    case True
    then show ?thesis
      by (simp add: digits_of.simps [of n] digits_value_def digit_char_value)
  next
    case False
    have "digits_value 10 (digits_of n)
        = digits_value 10 (digits_of (n div 10)) * 10 + the (digit_value (''0123456789'' ! (n mod 10)))"
      using False by (simp add: digits_of.simps [of n] digits_value_def)
    also have "\<dots> = (n div 10) * 10 + n mod 10"
      using "1.IH" False by (simp add: digit_char_value)
    finally show ?thesis by simp
  qed
qed

lemma parseInt_digits:
  assumes "z \<noteq> []" and "\<forall>c \<in> set z. \<exists>d<10. c = ''0123456789'' ! d"
  shows "takeWhile (is_digit 10) z = z" and "dropWhile is_space z = z"
    and "hd z \<noteq> CHR ''-''" and "hd z \<noteq> CHR ''+''"
    and "\<not> (case z of a # b # _ \<Rightarrow> a = CHR ''0'' \<and> (b = CHR ''x'' \<or> b = CHR ''X'') | _ \<Rightarrow> False)"
proof -
  show "takeWhile (is_digit 10) z = z"
    using assms(2) by (auto simp: is_digit_def digit_char_value)
  obtain a zs where z: "z = a # zs" using assms(1) by (cases z) auto
  then obtain d where d: "d < 10" "a = ''0123456789'' ! d" using assms(2) by auto
  show "dropWhile is_space z = z" using z d digit_char_plain [of d] by simp
  show "hd z \<noteq> CHR ''-''" using z d digit_char_plain [of d] by simp
  show "hd z \<noteq> CHR ''+''" using z d digit_char_plain [of d] by simp
  show "\<not> (case z of a # b # _ \<Rightarrow> a = CHR ''0'' \<and> (b = CHR ''x'' \<or> b = CHR ''X'') | _ \<Rightarrow> False)"
  proof (cases zs)
    case Nil
    with z show ?thesis by simp
  next
    case (Cons b zs')
    then obtain e where "e < 10" "b = ''0123456789'' ! e" using z assms(2) by auto
    then show ?thesis using z Cons digit_char_plain [of e] by simp
  qed
qed

lemma parseInt_toString: "parseInt (toString n) = Some n"
proof (cases "n < 0")
  case False
  let ?z = "digits_of (nat n)"
  have z: "?z \<noteq> []" "\<forall>c \<in> set ?z. \<exists>d<10. c = ''0123456789'' ! d"
    using digits_of_nonempty digits_of_all by blast+
  show ?thesis
    using False z(1)
    by (simp add: parseInt_def toString_def Let_def parseInt_digits [OF z] digits_of_value)
next
  case True
  let ?z = "digits_of (nat (- n))"
  have z: "?z \<noteq> []" "\<forall>c \<in> set ?z. \<exists>d<10. c = ''0123456789'' ! d"
    using digits_of_nonempty digits_of_all by blast+
  show ?thesis
    using True z(1)
    by (simp add: parseInt_def toString_def Let_def is_space_def parseInt_digits [OF z]
        digits_of_value)
qed

text \<open>
  Claim C4, as the code has it. A resolved \<^verbatim>\<open>Profiles.setActive\<close> changes \<^verbatim>\<open>profiles.active\<close>
  and exactly one entry of the persistent \<^verbatim>\<open>localStorage\<close>: the key \<^verbatim>\<open>activeProfile\<close> receives
  the decimal id of the new active profile (or \<^verbatim>\<open>1\<close> when the reply was \<^verbatim>\<open>null\<close> or
  \<^verbatim>\<open>undefined\<close>); every other field of the state and every other key are as before. A process
  that starts later on that storage reads the same id back with
  \<^verbatim>\<open>getLocalStorageInt('activeProfile', 1)\<close>. A rejected request changes nothing.
\<close>

theorem profiles_setActive_effect:
  "(\<forall>e. reply i = Inl e \<longrightarrow> Profiles_setActive reply i s = Inl e)
 \<and> (\<forall>r. reply i = Inr r \<longrightarrow>
      Profiles_setActive reply i s =
        Inr (s\<lparr>profiles_active := r,
               localStorage := (localStorage s)(''activeProfile'' \<mapsto>
                  toString (case optional_id r of None \<Rightarrow> 1 | Some n \<Rightarrow> n))\<rparr>)
    \<and> activeProfileId ((localStorage s)(''activeProfile'' \<mapsto>
                  toString (case optional_id r of None \<Rightarrow> 1 | Some n \<Rightarrow> n)))
        = Some (case optional_id r of None \<Rightarrow> 1 | Some n \<Rightarrow> n))"
  by (simp add: Profiles_setActive_def setLocalStorageInt_def activeProfileId_def
      getLocalStorageInt_def parseInt_toString)

theorem profiles_setActive_effect_witness:
  "Profiles_setActive (\<lambda>i. Inr (Obj \<lparr>profile_id = i, profile_fields = ''Modded''\<rparr>) :: string + _) 2
      \<lparr>communities_all = ([] :: unit CommunityInfo list), communities_active = None,
       profiles_active = Undefined, localStorage = Map.empty, console_warn = []\<rparr>
   = Inr \<lparr>communities_all = [], communities_active = None,
       profiles_active = Obj \<lparr>profile_id = 2, profile_fields = ''Modded''\<rparr>,
       localStorage = [''activeProfile'' \<mapsto> toString 2], console_warn = []\<rparr>
 \<and> activeProfileId [''activeProfile'' \<mapsto> toString 2] = Some 2"
  using profiles_setActive_effect
    [of "\<lambda>i. Inr (Obj \<lparr>profile_id = i, profile_fields = ''Modded''\<rparr>) :: string + _" 2
      "\<lparr>communities_all = ([] :: unit CommunityInfo list), communities_active = None,
       profiles_active = Undefined, localStorage = Map.empty, console_warn = []\<rparr>"]
  by simp

text \<open>
  Claim C4 as stated fails: starting from an empty storage, selecting profile 2 leaves the
  entry \<^verbatim>\<open>activeProfile = "2"\<close> in \<^verbatim>\<open>localStorage\<close>, and the next process start reads 2 from it.
\<close>

theorem profiles_setActive_persists_counterexample:
  "Profiles_setActive (\<lambda>i. Inr (Obj \<lparr>profile_id = i, profile_fields = ''Modded''\<rparr>) :: string + _) 2
      \<lparr>communities_all = ([] :: unit CommunityInfo list), communities_active = None,
       profiles_active = Undefined, localStorage = Map.empty, console_warn = []\<rparr>
   = Inr \<lparr>communities_all = [], communities_active = None,
       profiles_active = Obj \<lparr>profile_id = 2, profile_fields = ''Modded''\<rparr>,
       localStorage = [''activeProfile'' \<mapsto> ''2''], console_warn = []\<rparr>
 \<and> [''activeProfile'' \<mapsto> ''2''] \<noteq> (Map.empty :: string \<rightharpoonup> string)
 \<and> activeProfileId [''activeProfile'' \<mapsto> ''2''] = Some 2"
proof -
  have t: "toString 2 = ''2''" by code_simp
  have p: "parseInt ''2'' = Some 2" by code_simp
  show ?thesis
    by (simp add: Profiles_setActive_def setLocalStorageInt_def activeProfileId_def
        getLocalStorageInt_def t p)
qed

text \<open>
  Claim C6. Delivering the same \<^verbatim>\<open>profile-update\<close> payload a second time leaves the state
  exactly as the first delivery left it.
\<close>

theorem profile_update_idempotent:
  "on_profile_update payload (on_profile_update payload s) = on_profile_update payload s"
  by (auto simp: on_profile_update_def)

text \<open>
  Claim C9. When no community in \<^verbatim>\<open>communities.all\<close> has the requested id,
  \<^verbatim>\<open>Communities.setActive\<close> does not fail: it leaves \<^verbatim>\<open>communities.active\<close> undefined and
  stores the fallback \<^verbatim>\<open>1\<close> under the key \<^verbatim>\<open>activeCommunity\<close>.
\<close>

theorem communities_setActive_unknown_id:
  assumes "i \<notin> community_id ` set (communities_all s)"
  shows "communities_active (Communities_setActive i s) = None
       \<and> localStorage (Communities_setActive i s) ''activeCommunity'' = Some ''1''
       \<and> communities_all (Communities_setActive i s) = communities_all s"
proof -
  have "find (\<lambda>community. community_id community = i) (communities_all s) = None"
    using assms by (auto simp: find_None_iff)
  moreover have "toString 1 = ''1''"
    by code_simp
  ultimately show ?thesis
    by (simp add: Communities_setActive_def getCommunity_def setLocalStorageInt_def)
qed

theorem communities_setActive_unknown_id_witness:
  "communities_active (Communities_setActive 7
      \<lparr>communities_all = [\<lparr>community_id = 1, community_fields = ''Lethal Company''\<rparr>,
                          \<lparr>community_id = 2, community_fields = ''Content Warning''\<rparr>],
       communities_active = Some \<lparr>community_id = 2, community_fields = ''Content Warning''\<rparr>,
       profiles_active = (Undefined :: unit ProfileInfo nullable),
       localStorage = [''activeCommunity'' \<mapsto> ''2''],
       console_warn = []\<rparr>) = None
   \<and> localStorage (Communities_setActive 7
      \<lparr>communities_all = [\<lparr>community_id = 1, community_fields = ''Lethal Company''\<rparr>,
                          \<lparr>community_id = 2, community_fields = ''Content Warning''\<rparr>],
       communities_active = Some \<lparr>community_id = 2, community_fields = ''Content Warning''\<rparr>,
       profiles_active = (Undefined :: unit ProfileInfo nullable),
       localStorage = [''activeCommunity'' \<mapsto> ''2''],
       console_warn = []\<rparr>) ''activeCommunity'' = Some ''1''"
  using communities_setActive_unknown_id [of 7
      "\<lparr>communities_all = [\<lparr>community_id = 1, community_fields = ''Lethal Company''\<rparr>,
                          \<lparr>community_id = 2, community_fields = ''Content Warning''\<rparr>],
       communities_active = Some \<lparr>community_id = 2, community_fields = ''Content Warning''\<rparr>,
       profiles_active = (Undefined :: unit ProfileInfo nullable),
       localStorage = [''activeCommunity'' \<mapsto> ''2''],
       console_warn = []\<rparr>"]
  by simp

text \<open>With an active profile the getter returns its id and touches nothing; with
  \<^verbatim>\<open>profiles.active\<close> undefined it logs one warning and returns 1.\<close>

lemma profiles_activeId_defined:
  "Profiles_activeId (s\<lparr>profiles_active := Obj p\<rparr>) = Inr (profile_id p, s\<lparr>profiles_active := Obj p\<rparr>)"
  "Profiles_activeId (s\<lparr>profiles_active := Undefined\<rparr>)
     = Inr (1, s\<lparr>profiles_active := Undefined,
                  console_warn := console_warn s @ [''no active profile'']\<rparr>)"
  by (simp_all add: Profiles_activeId_def)


section \<open>Properties of the store\<close>

lemmas stmt_defs =
  insert_game_def update_game_def delete_game_def
  insert_category_def update_category_def delete_category_def
  insert_package_category_def update_package_category_def delete_package_category_def
  insert_package_def insert_or_replace_package_def update_package_def delete_package_def
  insert_version_def update_version_def delete_version_def
  insert_dependency_def update_dependency_def delete_dependency_def
  insert_profile_def update_profile_def delete_profile_def
  insert_profile_mod_def update_profile_mod_def delete_profile_mod_def
  insert_package_fts_def update_package_fts_def delete_package_fts_def

lemma run_invariant:
  assumes "P d" and "\<And>st d d'. P d \<Longrightarrow> exec st d = Inr d' \<Longrightarrow> P d'"
  shows "P (run sts d)"
  using assms(1)
proof (induction sts arbitrary: d)
  case Nil
  then show ?case by simp
next
  case (Cons st sts)
  show ?case
  proof (cases "exec st d")
    case (Inl e)
    with Cons show ?thesis by simp
  next
    case (Inr d')
    with Cons.prems assms(2) have "P d'" by blast
    with Cons.IH Inr show ?thesis by simp
  qed
qed


lemmas sample_defs = sample_package_def sample_version_def sample_dependency_def

lemma catalog_one_reachable: "catalog_one = run
     [InsertPackage (sample_package ''pa'' ''A''), InsertPackage (sample_package ''pb'' ''B''),
      InsertVersion (sample_version ''va'' ''pa'' (1, 0, 0)),
      InsertVersion (sample_version ''vb1'' ''pb'' (1, 1, 0)),
      InsertDependency (sample_dependency ''va'' ''B'' (1, 2, 0))] seed_db"
  by (simp add: catalog_one_def seed_db_def sample_defs fts_row_of_def insert_package_def
      insert_version_def insert_dependency_def insert_package_fts_def dep_key_def)

subsection \<open>The full-text index follows the packages\<close>

lemma fts_exact_seed: "fts_exact seed_db"
  by (simp add: fts_exact_def seed_db_def)

lemma fts_exact_insert:
  "fts_exact d \<Longrightarrow> insert_package new d = Inr d' \<Longrightarrow> fts_exact d'"
  by (auto simp: fts_exact_def insert_package_def insert_package_fts_def fts_row_of_def
      split: if_splits)

lemma fts_exact_update:
  assumes "fts_exact d" "update_package oid new d = Inr d'" "pkg_id new = oid"
  shows "fts_exact d'"
proof (cases "oid \<in> pkg_id ` set (packages d)")
  case False
  with assms show ?thesis by (simp add: update_package_def)
next
  case True
  with assms(2,3) have d': "d' = update_package_fts new
             (d\<lparr>packages := map (\<lambda>p. if pkg_id p = oid then new else p) (packages d)\<rparr>)"
    by (auto simp: update_package_def split: if_splits)
  have ids: "map pkg_id (map (\<lambda>p. if pkg_id p = oid then new else p) (packages d))
           = map pkg_id (packages d)"
    using assms(3) by (induction "packages d") auto
  have "map (\<lambda>r. if fts_package_id r = pkg_id new
                  then r\<lparr>fts_name := pkg_name new, fts_description := pkg_description new,
                         fts_owner := pkg_owner new\<rparr>
                  else r) (map fts_row_of ps)
      = map fts_row_of (map (\<lambda>p. if pkg_id p = oid then new else p) ps)" for ps
    using assms(3) by (induction ps) (auto simp: fts_row_of_def)
  with assms(1) ids show ?thesis
    by (simp add: d' fts_exact_def update_package_fts_def del: map_map)
qed

lemma fts_exact_delete:
  assumes "fts_exact d" "delete_package oid d = Inr d'"
  shows "fts_exact d'"
proof (cases "find (\<lambda>p. pkg_id p = oid) (packages d)")
  case None
  with assms show ?thesis by (simp add: delete_package_def)
next
  case (Some old)
  then have old: "pkg_id old = oid" by (auto simp: find_Some_iff)
  have "filter (\<lambda>r. fts_package_id r \<noteq> oid) (map fts_row_of ps)
      = map fts_row_of (filter (\<lambda>p. pkg_id p \<noteq> oid) ps)" for ps
    by (induction ps) (auto simp: fts_row_of_def)
  with assms Some old show ?thesis
    by (auto simp: delete_package_def delete_package_fts_def fts_exact_def Let_def
        distinct_map_filter)
qed

lemma fts_exact_exec:
  "fts_exact d \<Longrightarrow> followed st \<Longrightarrow> exec st d = Inr d' \<Longrightarrow> fts_exact d'"
proof (cases st)
  case (InsertPackage p)
  assume "fts_exact d" "exec st d = Inr d'"
  with InsertPackage show ?thesis using fts_exact_insert by simp
next
  case (UpdatePackage oid p)
  assume "fts_exact d" "exec st d = Inr d'" "followed st"
  with UpdatePackage show ?thesis using fts_exact_update by simp
next
  case (DeletePackage oid)
  assume "fts_exact d" "exec st d = Inr d'"
  with DeletePackage show ?thesis using fts_exact_delete by simp
qed (auto simp: fts_exact_def insert_game_def update_game_def delete_game_def
      insert_category_def update_category_def delete_category_def insert_package_category_def
      update_package_category_def delete_package_category_def insert_version_def
      update_version_def delete_version_def insert_dependency_def update_dependency_def
      delete_dependency_def insert_profile_def update_profile_def delete_profile_def
      insert_profile_mod_def update_profile_mod_def delete_profile_mod_def Let_def
      split: if_splits)

lemma fts_exact_run:
  "fts_exact d \<Longrightarrow> \<forall>st \<in> set sts. followed st \<Longrightarrow> fts_exact (run sts d)"
proof (induction sts arbitrary: d)
  case Nil
  then show ?case by simp
next
  case (Cons st sts)
  show ?case
  proof (cases "exec st d")
    case (Inl e)
    with Cons show ?thesis by simp
  next
    case (Inr d')
    with Cons.prems have "fts_exact d'" by (auto intro: fts_exact_exec)
    with Cons Inr show ?thesis by simp
  qed
qed

lemma filter_one_of_distinct:
  "distinct (map k ps) \<Longrightarrow> p \<in> set ps \<Longrightarrow> filter (\<lambda>q. k q = k p) ps = [p]"
proof (induction ps)
  case Nil
  then show ?case by simp
next
  case (Cons a ps)
  show ?case
  proof (cases "a = p")
    case True
    with Cons.prems have "\<forall>q \<in> set ps. k q \<noteq> k p" by (auto simp: image_iff)
    then have "filter (\<lambda>q. k q = k p) ps = []" by (simp add: filter_empty_conv)
    with True show ?thesis by simp
  next
    case False
    with Cons.prems have "p \<in> set ps" "k a \<noteq> k p" by auto
    with Cons show ?thesis by simp
  qed
qed

lemma fts_exact_synced: "fts_exact d \<Longrightarrow> fts_synced d"
proof -
  assume a: "fts_exact d"
  have "filter (\<lambda>r. fts_package_id r = pkg_id p) (map fts_row_of (packages d)) = [fts_row_of p]"
    if "p \<in> set (packages d)" for p
  proof -
    have "filter (\<lambda>r. fts_package_id r = pkg_id p) (map fts_row_of (packages d))
        = map fts_row_of (filter (\<lambda>q. pkg_id q = pkg_id p) (packages d))"
      by (simp add: filter_map o_def fts_row_of_def)
    also have "\<dots> = [fts_row_of p]"
      using filter_one_of_distinct [of pkg_id "packages d" p] a that
      by (simp add: fts_exact_def)
    finally show ?thesis .
  qed
  with a show ?thesis
    by (auto simp: fts_synced_def fts_exact_def fts_row_of_def)
qed

text \<open>What the triggers do achieve: from the migrated store on, after any sequence of followed
  statements the index holds exactly one row per package row, with the package's current name,
  description and owner, and no other row.\<close>

lemma fts_synced_followed:
  "\<forall>st \<in> set sts. followed st \<Longrightarrow> fts_synced (run sts seed_db)"
  using fts_exact_run [OF fts_exact_seed] fts_exact_synced by blast

text \<open>
  Claim C2 fails on the code for an insert that replaces a stored row. A package is inserted,
  then its latest version, and the index is synchronised; the package is then written again
  with \<^verbatim>\<open>INSERT OR REPLACE\<close> under a new name. The delete trigger does not run for the replaced
  row and the insert trigger runs for the new one, so the index ends with two rows for the one
  package row, the first with the name the package no longer has.
\<close>

theorem fts_replace_two_shadow_rows:
  "run [InsertPackage (sample_package ''pa'' ''A''),
        InsertVersion (sample_version ''pa-latest'' ''pa'' (1, 0, 0)),
        InsertOrReplacePackage (sample_package ''pa'' ''A2'')] seed_db
   = seed_db\<lparr>packages := [sample_package ''pa'' ''A2''],
             packages_fts := [\<lparr>fts_package_id = ''pa'', fts_name = ''A'',
                                fts_description = ''a mod'', fts_owner = ''team''\<rparr>,
                              \<lparr>fts_package_id = ''pa'', fts_name = ''A2'',
                                fts_description = ''a mod'', fts_owner = ''team''\<rparr>]\<rparr>"
  by (simp add: seed_db_def sample_defs insert_package_def insert_version_def
      insert_or_replace_package_def insert_package_fts_def)

lemma fts_replace_from_synced_store:
  "fts_synced (run [InsertPackage (sample_package ''pa'' ''A''),
        InsertVersion (sample_version ''pa-latest'' ''pa'' (1, 0, 0))] seed_db)"
  "latest_ok (run [InsertPackage (sample_package ''pa'' ''A''),
        InsertVersion (sample_version ''pa-latest'' ''pa'' (1, 0, 0))] seed_db)"
  "\<not> fts_synced (run [InsertPackage (sample_package ''pa'' ''A''),
        InsertVersion (sample_version ''pa-latest'' ''pa'' (1, 0, 0)),
        InsertOrReplacePackage (sample_package ''pa'' ''A2'')] seed_db)"
  by (simp_all add: seed_db_def sample_defs insert_package_def insert_version_def
      insert_or_replace_package_def insert_package_fts_def fts_synced_def latest_ok_def
      fts_row_of_def)

subsection \<open>Packages refer to existing games\<close>

lemma game_ids_after_update:
  "game_id new = oid \<Longrightarrow>
   game_id ` set (map (\<lambda>g. if game_id g = oid then new else g) gs) = game_id ` set gs"
  by (induction gs) auto

lemma game_ids_kept_by_update:
  "i \<in> game_id ` set gs \<Longrightarrow> i \<noteq> oid \<Longrightarrow>
   i \<in> game_id ` set (map (\<lambda>g. if game_id g = oid then new else g) gs)"
  by (induction gs) auto

lemma game_refs_exec: "game_refs_ok d \<Longrightarrow> exec st d = Inr d' \<Longrightarrow> game_refs_ok d'"
proof (cases st)
  case (UpdateGame oid new)
  assume "game_refs_ok d" "exec st d = Inr d'"
  then have ok: "game_refs_ok d" and ex: "update_game oid new d = Inr d'"
    using UpdateGame by simp_all
  show ?thesis
  proof (cases "oid \<in> game_id ` set (games d)")
    case False
    with ok ex show ?thesis by (simp add: update_game_def)
  next
    case True
    with ex have pk: "packages d' = packages d"
      and gs: "games d' = map (\<lambda>g. if game_id g = oid then new else g) (games d)"
      and ch: "game_id new = oid \<or> oid \<notin> pkg_game_id ` set (packages d)"
      by (auto simp: update_game_def split: if_splits)
    have "pkg_game_id p \<in> game_id ` set (games d')" if "p \<in> set (packages d)" for p
    proof -
      from that ok have in_d: "pkg_game_id p \<in> game_id ` set (games d)"
        by (simp add: game_refs_ok_def)
      from ch show ?thesis
      proof
        assume "game_id new = oid"
        with in_d show ?thesis unfolding gs by (simp only: game_ids_after_update)
      next
        assume "oid \<notin> pkg_game_id ` set (packages d)"
        with that have "pkg_game_id p \<noteq> oid" by auto
        with in_d show ?thesis unfolding gs by (rule game_ids_kept_by_update)
      qed
    qed
    then show ?thesis by (simp add: game_refs_ok_def pk)
  qed
next
  case (DeleteGame gid)
  assume "game_refs_ok d" "exec st d = Inr d'"
  then have ok: "game_refs_ok d" and ex: "delete_game gid d = Inr d'"
    using DeleteGame by simp_all
  show ?thesis
  proof (cases "gid \<in> game_id ` set (games d)")
    case False
    with ok ex show ?thesis by (simp add: delete_game_def)
  next
    case True
    with ex have nref: "gid \<notin> pkg_game_id ` set (packages d)"
      and pk: "packages d' = packages d"
      and gs: "games d' = filter (\<lambda>g. game_id g \<noteq> gid) (games d)"
      by (auto simp: delete_game_def Let_def split: if_splits)
    have "pkg_game_id p \<in> game_id ` set (games d')" if "p \<in> set (packages d)" for p
    proof -
      from that nref have "pkg_game_id p \<noteq> gid" by auto
      moreover from that ok have "pkg_game_id p \<in> game_id ` set (games d)"
        by (simp add: game_refs_ok_def)
      ultimately show ?thesis by (auto simp: gs)
    qed
    then show ?thesis by (simp add: game_refs_ok_def pk)
  qed
qed (auto simp: game_refs_ok_def stmt_defs Let_def split: if_splits option.splits)

text \<open>
  Claim C8, as the schema has it. A write of a package row whose \<^verbatim>\<open>game_id\<close> matches no game row
  is always rejected and leaves the store as it was. The error is the foreign-key violation,
  except where the write breaks the primary key as well (a plain insert of a stored id, an
  update onto another stored id): the uniqueness check comes first and is the one reported. In
  every state reached from the migrated store, each package row refers to an existing game.
\<close>

theorem package_game_reference:
  assumes "pkg_game_id new \<notin> game_id ` set (games d)"
  shows "insert_package new d
           = Inl (if pkg_id new \<in> pkg_id ` set (packages d) then UniqueViolation
                  else ForeignKeyViolation)
       \<and> insert_or_replace_package new d = Inl ForeignKeyViolation
       \<and> (oid \<in> pkg_id ` set (packages d) \<longrightarrow>
            update_package oid new d
              = Inl (if pkg_id new \<noteq> oid \<and> pkg_id new \<in> pkg_id ` set (packages d)
                     then UniqueViolation else ForeignKeyViolation))
       \<and> run [InsertPackage new] d = d
       \<and> run [InsertOrReplacePackage new] d = d
       \<and> run [UpdatePackage oid new] d = d
       \<and> game_refs_ok (run sts seed_db)"
proof -
  have "game_refs_ok seed_db" by (simp add: game_refs_ok_def seed_db_def)
  then have "game_refs_ok (run sts seed_db)"
    by (rule run_invariant [where P = game_refs_ok]) (rule game_refs_exec)
  with assms show ?thesis
    by (auto simp: insert_package_def update_package_def insert_or_replace_package_def)
qed

theorem package_game_reference_witness:
  "insert_package ((sample_package ''pc'' ''C'')\<lparr>pkg_game_id := 9\<rparr>) catalog_one
      = Inl ForeignKeyViolation
 \<and> run [InsertPackage ((sample_package ''pc'' ''C'')\<lparr>pkg_game_id := 9\<rparr>)] catalog_one = catalog_one
 \<and> insert_or_replace_package ((sample_package ''pa'' ''A'')\<lparr>pkg_game_id := 9\<rparr>) catalog_one
      = Inl ForeignKeyViolation
 \<and> update_package ''pa'' ((sample_package ''pa'' ''A'')\<lparr>pkg_game_id := 9\<rparr>) catalog_one
      = Inl ForeignKeyViolation
 \<and> update_package ''pa'' ((sample_package ''pb'' ''A'')\<lparr>pkg_game_id := 9\<rparr>) catalog_one
      = Inl UniqueViolation
 \<and> game_refs_ok catalog_one"
proof -
  have g: "pkg_game_id ((sample_package i n)\<lparr>pkg_game_id := 9\<rparr>) \<notin> game_id ` set (games catalog_one)"
    for i n
    by (simp add: seed_db_def catalog_one_def sample_defs)
  have ids: "pkg_id ` set (packages catalog_one) = {''pa'', ''pb''}"
    by (simp add: catalog_one_def sample_defs)
  have i: "pkg_id ((sample_package i n)\<lparr>pkg_game_id := 9\<rparr>) = i" for i n
    by (simp add: sample_defs)
  from package_game_reference [OF g [of "''pc''" "''C''"]]
  have a: "insert_package ((sample_package ''pc'' ''C'')\<lparr>pkg_game_id := 9\<rparr>) catalog_one
      = Inl ForeignKeyViolation"
    "run [InsertPackage ((sample_package ''pc'' ''C'')\<lparr>pkg_game_id := 9\<rparr>)] catalog_one = catalog_one"
    unfolding ids i by simp_all
  from package_game_reference [OF g [of "''pa''" "''A''"], of "''pa''"]
  have b: "insert_or_replace_package ((sample_package ''pa'' ''A'')\<lparr>pkg_game_id := 9\<rparr>) catalog_one
      = Inl ForeignKeyViolation"
    "update_package ''pa'' ((sample_package ''pa'' ''A'')\<lparr>pkg_game_id := 9\<rparr>) catalog_one
      = Inl ForeignKeyViolation"
    unfolding ids i by simp_all
  from package_game_reference [OF g [of "''pb''" "''A''"], of "''pa''"]
  have c: "update_package ''pa'' ((sample_package ''pb'' ''A'')\<lparr>pkg_game_id := 9\<rparr>) catalog_one
      = Inl UniqueViolation"
    unfolding ids i by simp
  from package_game_reference [OF g [of "''pa''" "''A''"], of _ "[InsertPackage (sample_package ''pa'' ''A''), InsertPackage (sample_package ''pb'' ''B''),
      InsertVersion (sample_version ''va'' ''pa'' (1, 0, 0)),
      InsertVersion (sample_version ''vb1'' ''pb'' (1, 1, 0)),
      InsertDependency (sample_dependency ''va'' ''B'' (1, 2, 0))]"]
  have e: "game_refs_ok catalog_one" unfolding catalog_one_reachable by blast
  from a b c e show ?thesis by blast
qed

text \<open>
  Claim C8 as stated fails where the primary key is broken too: package \<^verbatim>\<open>pa\<close> is stored, no game
  has id 9, and the insert of a row with id \<^verbatim>\<open>pa\<close> and game 9 is rejected with the uniqueness
  violation, not with the foreign-key violation.
\<close>

theorem package_game_unique_first_counterexample:
  "''pa'' \<in> pkg_id ` set (packages catalog_one)
 \<and> 9 \<notin> game_id ` set (games catalog_one)
 \<and> insert_package ((sample_package ''pa'' ''A'')\<lparr>pkg_game_id := 9\<rparr>) catalog_one
      = Inl UniqueViolation"
  by (simp add: insert_package_def catalog_one_def seed_db_def sample_defs)

subsection \<open>One dependency edge per target package\<close>

lemma distinct_map_replace:
  "distinct (map f xs) \<Longrightarrow> f y = k \<or> f y \<notin> f ` set xs \<Longrightarrow>
   distinct (map f (map (\<lambda>x. if f x = k then y else x) xs))"
proof (induction xs)
  case Nil
  then show ?case by simp
next
  case (Cons x xs)
  define ys where "ys = map (\<lambda>x. if f x = k then y else x) xs"
  from Cons.prems have d: "distinct (map f xs)" and nx: "f x \<notin> f ` set xs"
    and y: "f y = k \<or> f y \<notin> f ` set xs" by auto
  have ih: "distinct (map f ys)" unfolding ys_def by (rule Cons.IH [OF d y])
  have img: "f ` set ys \<subseteq> f ` set xs \<union> {f y}" unfolding ys_def by auto
  show ?case
  proof (cases "f x = k")
    case True
    then have "k \<notin> f ` set xs" using nx by simp
    then have same: "ys = xs" unfolding ys_def by (induction xs) auto
    from Cons.prems(2) True nx have "f y \<notin> f ` set xs" by auto
    then have "distinct (map f (y # ys))" using d same by simp
    moreover have "map (\<lambda>x. if f x = k then y else x) (x # xs) = y # ys"
      using True by (simp add: ys_def)
    ultimately show ?thesis by (simp only:)
  next
    case False
    have "f x \<notin> f ` set ys"
    proof
      assume "f x \<in> f ` set ys"
      with img nx have "f x = f y" by auto
      with Cons.prems(2) False show False by auto
    qed
    then have "distinct (map f (x # ys))" using ih by simp
    moreover have "map (\<lambda>x. if f x = k then y else x) (x # xs) = x # ys"
      using False by (simp add: ys_def)
    ultimately show ?thesis by (simp only:)
  qed
qed

lemma dep_keys_exec:
  "distinct (map dep_key (dependencies d)) \<Longrightarrow> exec st d = Inr d'
   \<Longrightarrow> distinct (map dep_key (dependencies d'))"
proof (cases st)
  case (UpdateDependency k new)
  assume dist: "distinct (map dep_key (dependencies d))" and "exec st d = Inr d'"
  then have ex: "update_dependency k new d = Inr d'" using UpdateDependency by simp
  show ?thesis
  proof (cases "k \<in> dep_key ` set (dependencies d)")
    case False
    with dist ex show ?thesis by (simp add: update_dependency_def)
  next
    case True
    with ex have ds: "dependencies d' = map (\<lambda>e. if dep_key e = k then new else e) (dependencies d)"
      and ch: "dep_key new = k \<or> dep_key new \<notin> dep_key ` set (dependencies d)"
      by (auto simp: update_dependency_def split: if_splits)
    from distinct_map_replace [OF dist ch] show ?thesis unfolding ds .
  qed
qed (auto simp: stmt_defs Let_def distinct_map_filter split: if_splits option.splits)

text \<open>
  Claim C7. A second edge from the same dependent version to the same owner and name is
  rejected by the composite primary key; an edge with a fresh key is accepted as soon as its
  dependent version exists, whatever the \<^verbatim>\<open>packages\<close> and \<^verbatim>\<open>versions\<close> tables hold under that owner
  and name (the target is a soft reference); and in every state reached from the migrated store
  the keys \<^verbatim>\<open>(dependent_id, owner, name)\<close> of the stored edges are pairwise different.
\<close>

theorem dependency_key_unique:
  "(dep_key new \<in> dep_key ` set (dependencies d) \<longrightarrow> insert_dependency new d = Inl UniqueViolation)
 \<and> (dep_key new \<notin> dep_key ` set (dependencies d) \<and> dep_dependent_id new \<in> ver_id ` set (versions d)
      \<longrightarrow> insert_dependency new d = Inr (d\<lparr>dependencies := dependencies d @ [new]\<rparr>))
 \<and> distinct (map dep_key (dependencies (run sts seed_db)))"
proof -
  have "distinct (map dep_key (dependencies seed_db))" by (simp add: seed_db_def)
  then have "distinct (map dep_key (dependencies (run sts seed_db)))"
    by (rule run_invariant [where P = "\<lambda>d. distinct (map dep_key (dependencies d))"])
       (rule dep_keys_exec)
  then show ?thesis by (simp add: insert_dependency_def)
qed

theorem dependency_key_unique_witness:
  "insert_dependency (sample_dependency ''va'' ''B'' (2, 0, 0)) catalog_one = Inl UniqueViolation
 \<and> insert_dependency (sample_dependency ''va'' ''Unknown'' (1, 0, 0)) catalog_one
     = Inr (catalog_one\<lparr>dependencies := dependencies catalog_one
              @ [sample_dependency ''va'' ''Unknown'' (1, 0, 0)]\<rparr>)
 \<and> distinct (map dep_key (dependencies catalog_one))"
proof -
  have k1: "dep_key (sample_dependency ''va'' ''B'' (2, 0, 0)) \<in> dep_key ` set (dependencies catalog_one)"
    by (simp add: catalog_one_def dep_key_def sample_defs)
  have k2: "dep_key (sample_dependency ''va'' ''Unknown'' (1, 0, 0)) \<notin> dep_key ` set (dependencies catalog_one)
      \<and> dep_dependent_id (sample_dependency ''va'' ''Unknown'' (1, 0, 0)) \<in> ver_id ` set (versions catalog_one)"
    by (simp add: catalog_one_def dep_key_def sample_defs)
  from dependency_key_unique [of "sample_dependency ''va'' ''B'' (2, 0, 0)" catalog_one] k1
  have a: "insert_dependency (sample_dependency ''va'' ''B'' (2, 0, 0)) catalog_one = Inl UniqueViolation"
    by blast
  from dependency_key_unique [of "sample_dependency ''va'' ''Unknown'' (1, 0, 0)" catalog_one] k2
  have b: "insert_dependency (sample_dependency ''va'' ''Unknown'' (1, 0, 0)) catalog_one
     = Inr (catalog_one\<lparr>dependencies := dependencies catalog_one
              @ [sample_dependency ''va'' ''Unknown'' (1, 0, 0)]\<rparr>)"
    by blast
  from dependency_key_unique [of _ _ "[InsertPackage (sample_package ''pa'' ''A''), InsertPackage (sample_package ''pb'' ''B''),
      InsertVersion (sample_version ''va'' ''pa'' (1, 0, 0)),
      InsertVersion (sample_version ''vb1'' ''pb'' (1, 1, 0)),
      InsertDependency (sample_dependency ''va'' ''B'' (1, 2, 0))]"]
  have c: "distinct (map dep_key (dependencies catalog_one))" unfolding catalog_one_reachable by blast
  from a b c show ?thesis by blast
qed

subsection \<open>Deletes cascade from games to profiles to profile mods\<close>

text \<open>
  Claim C5. A game that is deleted takes all its profiles with it, and no mod row of any of
  those profiles is left behind; the delete is carried out whenever no package row refers to the
  game. A profile that is deleted takes all its mod rows with it.
\<close>

theorem delete_cascades:
  "(gid \<in> game_id ` set (games d) \<and> delete_game gid d = Inr d' \<longrightarrow>
      gid \<notin> game_id ` set (games d')
    \<and> profiles d' = filter (\<lambda>p. prof_game_id p \<noteq> gid) (profiles d)
    \<and> (\<forall>p \<in> set (profiles d). prof_game_id p = gid \<longrightarrow>
         (\<forall>m \<in> set (profile_mods d'). pmod_profile_id m \<noteq> prof_id p)))
 \<and> (gid \<in> game_id ` set (games d) \<and> gid \<notin> pkg_game_id ` set (packages d) \<longrightarrow>
      (\<exists>d1. delete_game gid d = Inr d1))
 \<and> (pid \<in> prof_id ` set (profiles d) \<longrightarrow>
      (\<exists>d2. delete_profile pid d = Inr d2
         \<and> profiles d2 = filter (\<lambda>p. prof_id p \<noteq> pid) (profiles d)
         \<and> profile_mods d2 = filter (\<lambda>m. pmod_profile_id m \<noteq> pid) (profile_mods d)))"
  by (auto simp: delete_game_def delete_profile_def Let_def split: if_splits)


theorem delete_cascades_witness:
  "delete_game 2 profiles_db
     = Inr (profiles_db\<lparr>games := [hd (games seed_db)], profiles := [sample_profile 2 1],
              profile_mods := [sample_profile_mod 2 2]\<rparr>)
 \<and> pmod_profile_id (sample_profile_mod 2 2) \<noteq> prof_id (sample_profile 1 2)
 \<and> (\<exists>d2. delete_profile 1 profiles_db = Inr d2
       \<and> profiles d2 = [sample_profile 2 1] \<and> profile_mods d2 = [sample_profile_mod 2 2])"
proof -
  let ?d' = "profiles_db\<lparr>games := [hd (games seed_db)], profiles := [sample_profile 2 1],
              profile_mods := [sample_profile_mod 2 2]\<rparr>"
  have g: "2 \<in> game_id ` set (games profiles_db)" "1 \<in> prof_id ` set (profiles profiles_db)"
    by (simp_all add: profiles_db_def seed_db_def sample_profile_def)
  have e: "delete_game 2 profiles_db = Inr ?d'"
    by (simp add: delete_game_def profiles_db_def seed_db_def sample_profile_def
        sample_profile_mod_def)
  have p: "sample_profile 1 2 \<in> set (profiles profiles_db)" "prof_game_id (sample_profile 1 2) = 2"
    by (simp_all add: profiles_db_def sample_profile_def)
  have f: "filter (\<lambda>p. prof_id p \<noteq> 1) (profiles profiles_db) = [sample_profile 2 1]"
    "filter (\<lambda>m. pmod_profile_id m \<noteq> 1) (profile_mods profiles_db) = [sample_profile_mod 2 2]"
    by (simp_all add: profiles_db_def sample_profile_def sample_profile_mod_def)
  note t = delete_cascades [of 2 profiles_db ?d' 1]
  from t g(1) e p
  have a: "\<forall>m \<in> set (profile_mods ?d'). pmod_profile_id m \<noteq> prof_id (sample_profile 1 2)"
    by blast
  from t g(2)
  have b: "\<exists>d2. delete_profile 1 profiles_db = Inr d2
       \<and> profiles d2 = [sample_profile 2 1] \<and> profile_mods d2 = [sample_profile_mod 2 2]"
    unfolding f by blast
  from a have "pmod_profile_id (sample_profile_mod 2 2) \<noteq> prof_id (sample_profile 1 2)"
    by simp
  with e b show ?thesis by blast
qed

subsection \<open>The latest version of a package\<close>

lemma insert_versions_result:
  "insert_versions ws d = Inr d' \<Longrightarrow>
     versions d' = versions d @ ws \<and> packages d' = packages d"
proof (induction ws arbitrary: d)
  case Nil
  then show ?case by simp
next
  case (Cons w ws)
  then obtain d1 where d1: "insert_version w d = Inr d1" and r: "insert_versions ws d1 = Inr d'"
    by (auto split: sum.splits)
  from d1 have "versions d1 = versions d @ [w]" "packages d1 = packages d"
    by (auto simp: insert_version_def split: if_splits)
  with Cons.IH [OF r] show ?case by simp
qed

lemma delete_package_result:
  assumes "latest_ok d" "version_refs_ok d" "delete_package oid d = Inr d1"
  shows "latest_ok d1" "version_refs_ok d1" "oid \<notin> pkg_id ` set (packages d1)"
    "\<forall>v \<in> set (versions d1). ver_package_id v \<noteq> oid"
proof -
  have pk: "packages d1 = filter (\<lambda>p. pkg_id p \<noteq> oid) (packages d)"
    and vs: "versions d1 = filter (\<lambda>v. ver_package_id v \<noteq> oid) (versions d)"
  proof -
    show "packages d1 = filter (\<lambda>p. pkg_id p \<noteq> oid) (packages d)"
    proof (cases "find (\<lambda>p. pkg_id p = oid) (packages d)")
      case None
      then have "\<forall>p \<in> set (packages d). pkg_id p \<noteq> oid" by (simp add: find_None_iff)
      then have "filter (\<lambda>p. pkg_id p \<noteq> oid) (packages d) = packages d" by simp
      with None assms(3) show ?thesis by (simp add: delete_package_def)
    next
      case (Some old)
      with assms(3) show ?thesis
        by (auto simp: delete_package_def delete_package_fts_def Let_def)
    qed
    show "versions d1 = filter (\<lambda>v. ver_package_id v \<noteq> oid) (versions d)"
    proof (cases "find (\<lambda>p. pkg_id p = oid) (packages d)")
      case None
      then have "oid \<notin> pkg_id ` set (packages d)" by (auto simp: find_None_iff)
      with assms(2) have "\<forall>v \<in> set (versions d). ver_package_id v \<noteq> oid"
        by (auto simp: version_refs_ok_def)
      then have "filter (\<lambda>v. ver_package_id v \<noteq> oid) (versions d) = versions d" by simp
      with None assms(3) show ?thesis by (simp add: delete_package_def)
    next
      case (Some old)
      with assms(3) show ?thesis
        by (auto simp: delete_package_def delete_package_fts_def Let_def)
    qed
  qed
  show "latest_ok d1"
    using assms(1) unfolding latest_ok_def pk vs by fastforce
  show "version_refs_ok d1"
    using assms(2) unfolding version_refs_ok_def pk vs by fastforce
  show "oid \<notin> pkg_id ` set (packages d1)" unfolding pk by auto
  show "\<forall>v \<in> set (versions d1). ver_package_id v \<noteq> oid" unfolding vs by auto
qed

text \<open>One successful \<^verbatim>\<open>upsertPackage\<close> keeps both conditions and leaves exactly one row of the
  upserted id, whose \<^verbatim>\<open>latest_version_id\<close> names the greatest stored version of the package.\<close>

lemma upsertPackage_step:
  assumes "latest_ok d" and "version_refs_ok d" and "upsertPackage pkg vs d = Inr d'"
  shows "latest_ok d' \<and> version_refs_ok d'
       \<and> pkg_id pkg \<in> pkg_id ` set (packages d')
       \<and> (\<forall>p \<in> set (packages d'). pkg_id p = pkg_id pkg
            \<longrightarrow> (\<exists>v \<in> set (versions d'). ver_id v = pkg_latest_version_id p
                 \<and> ver_package_id v = pkg_id pkg
                 \<and> (\<forall>w \<in> set (versions d'). ver_package_id w = pkg_id pkg
                        \<longrightarrow> triple_le (triple w) (triple v))))"
proof -
  from assms(3) obtain v rest where vs: "vs = v # rest"
    by (cases vs) (auto simp: upsertPackage_def)
  let ?row = "pkg\<lparr>pkg_latest_version_id := ver_id (latest_version v rest)\<rparr>"
  let ?ws = "map (\<lambda>w. w\<lparr>ver_package_id := pkg_id pkg\<rparr>) vs"
  let ?l = "(latest_version v rest)\<lparr>ver_package_id := pkg_id pkg\<rparr>"
  from assms(3) vs obtain d1 d2 where
    d1: "delete_package (pkg_id pkg) d = Inr d1" and
    d2: "insert_package ?row d1 = Inr d2" and
    d3: "insert_versions ?ws d2 = Inr d'"
    by (auto simp: upsertPackage_def split: sum.splits)
  note del = delete_package_result [OF assms(1,2) d1]
  from d2 have p2: "packages d2 = packages d1 @ [?row]" and v2: "versions d2 = versions d1"
    by (auto simp: insert_package_def insert_package_fts_def split: if_splits)
  from insert_versions_result [OF d3] p2 v2
  have p': "packages d' = packages d1 @ [?row]" and v': "versions d' = versions d1 @ ?ws"
    by simp_all
  have lmem: "?l \<in> set ?ws"
    using latest_version_mem [of v rest] vs by (auto simp: image_iff)
  have great: "triple_le (triple w) (triple ?l)"
    if "w \<in> set (versions d')" "ver_package_id w = pkg_id pkg" for w
  proof -
    from that del(4) have "w \<in> set ?ws" unfolding v' by auto
    then obtain u where u: "u \<in> set (v # rest)" "w = u\<lparr>ver_package_id := pkg_id pkg\<rparr>"
      using vs by auto
    from latest_version_greatest [OF u(1)] u(2) show ?thesis by (simp add: triple_def)
  qed
  have row: "\<exists>x \<in> set (versions d'). ver_id x = pkg_latest_version_id ?row
      \<and> ver_package_id x = pkg_id pkg
      \<and> (\<forall>w \<in> set (versions d'). ver_package_id w = pkg_id pkg \<longrightarrow> triple_le (triple w) (triple x))"
  proof (rule bexI [of _ ?l])
    show "?l \<in> set (versions d')" using lmem unfolding v' by simp
    show "ver_id ?l = pkg_latest_version_id ?row \<and> ver_package_id ?l = pkg_id pkg
      \<and> (\<forall>w \<in> set (versions d'). ver_package_id w = pkg_id pkg \<longrightarrow> triple_le (triple w) (triple ?l))"
      using great by simp
  qed
  have "latest_ok d'"
    unfolding latest_ok_def
  proof
    fix p assume "p \<in> set (packages d')"
    then consider "p \<in> set (packages d1)" | "p = ?row" unfolding p' by auto
    then show "\<exists>x \<in> set (versions d'). ver_id x = pkg_latest_version_id p \<and> ver_package_id x = pkg_id p"
    proof cases
      case 1
      with del(1) show ?thesis unfolding latest_ok_def v' by auto
    next
      case 2
      with row show ?thesis by auto
    qed
  qed
  moreover have "version_refs_ok d'"
    using del(2) unfolding version_refs_ok_def p' v' by auto
  moreover have "pkg_id pkg \<in> pkg_id ` set (packages d')" unfolding p' by simp
  moreover have "p = ?row" if "p \<in> set (packages d')" "pkg_id p = pkg_id pkg" for p
  proof (rule ccontr)
    assume "p \<noteq> ?row"
    with that(1) have "p \<in> set (packages d1)" unfolding p' by simp
    then have "pkg_id p \<in> pkg_id ` set (packages d1)" by (rule imageI)
    with that(2) del(3) show False by simp
  qed
  ultimately show ?thesis using row by blast
qed


lemma catalog_call_keeps:
  assumes "latest_ok d \<and> version_refs_ok d" and "catalog_call c d = Inr d'"
  shows "latest_ok d' \<and> version_refs_ok d'"
proof (cases c)
  case (Upsert pkg vs)
  with assms upsertPackage_step [of d pkg vs d'] show ?thesis by simp
next
  case (Remove oid)
  with assms delete_package_result(1,2) [of d oid d'] show ?thesis by simp
qed

lemma catalog_run_keeps:
  "latest_ok d \<and> version_refs_ok d
   \<Longrightarrow> latest_ok (catalog_run cs d) \<and> version_refs_ok (catalog_run cs d)"
proof (induction cs arbitrary: d)
  case Nil
  then show ?case by simp
next
  case (Cons c cs)
  show ?case
  proof (cases "catalog_call c d")
    case (Inl e)
    with Cons show ?thesis by simp
  next
    case (Inr d')
    with Cons.prems have "latest_ok d' \<and> version_refs_ok d'" by (rule catalog_call_keeps)
    with Cons.IH Inr show ?thesis by simp
  qed
qed

text \<open>
  Claim C3. In every store that the Package Catalog reaches from the migrated store, by
  \<^verbatim>\<open>upsertPackage\<close> calls and package deletions, every package row's \<^verbatim>\<open>latest_version_id\<close> is the id
  of an existing version row whose \<^verbatim>\<open>package_id\<close> is that package's id. After a successful
  \<^verbatim>\<open>upsertPackage\<close> on such a store the package is stored, and its \<^verbatim>\<open>latest_version_id\<close> is the id
  of a version of that package whose triple is the greatest among the package's versions.
\<close>

theorem latest_version_invariant:
  "latest_ok (catalog_run cs seed_db)
 \<and> (\<forall>d'. upsertPackage pkg vs (catalog_run cs seed_db) = Inr d' \<longrightarrow>
       pkg_id pkg \<in> pkg_id ` set (packages d')
     \<and> (\<forall>p \<in> set (packages d'). pkg_id p = pkg_id pkg \<longrightarrow>
           (\<exists>v \<in> set (versions d'). ver_id v = pkg_latest_version_id p
              \<and> ver_package_id v = pkg_id pkg
              \<and> (\<forall>w \<in> set (versions d'). ver_package_id w = pkg_id pkg
                     \<longrightarrow> triple_le (triple w) (triple v)))))"
proof -
  have "latest_ok seed_db \<and> version_refs_ok seed_db"
    by (simp add: latest_ok_def version_refs_ok_def seed_db_def)
  then have inv: "latest_ok (catalog_run cs seed_db) \<and> version_refs_ok (catalog_run cs seed_db)"
    by (rule catalog_run_keeps)
  with upsertPackage_step [of "catalog_run cs seed_db" pkg vs] show ?thesis by blast
qed

theorem latest_version_invariant_witness:
  "catalog_run [Upsert (sample_package ''pb'' ''B'') [sample_version ''w1'' ''pb'' (0, 9, 0)],
                Upsert (sample_package ''pa'' ''A'') [sample_version ''v0'' ''pa'' (0, 1, 0)]] seed_db
     = seed_db\<lparr>packages := [(sample_package ''pb'' ''B'')\<lparr>pkg_latest_version_id := ''w1''\<rparr>,
                              (sample_package ''pa'' ''A'')\<lparr>pkg_latest_version_id := ''v0''\<rparr>],
                 packages_fts := [fts_row_of (sample_package ''pb'' ''B''),
                                  fts_row_of (sample_package ''pa'' ''A'')],
                 versions := [sample_version ''w1'' ''pb'' (0, 9, 0),
                              sample_version ''v0'' ''pa'' (0, 1, 0)]\<rparr>
 \<and> latest_ok (catalog_run
       [Upsert (sample_package ''pb'' ''B'') [sample_version ''w1'' ''pb'' (0, 9, 0)],
        Upsert (sample_package ''pa'' ''A'') [sample_version ''v0'' ''pa'' (0, 1, 0)]] seed_db)
 \<and> upsertPackage (sample_package ''pa'' ''A'')
       [sample_version ''v1'' ''pa'' (1, 0, 0), sample_version ''v2'' ''pa'' (1, 3, 0),
        sample_version ''v3'' ''pa'' (1, 1, 0)]
       (catalog_run
         [Upsert (sample_package ''pb'' ''B'') [sample_version ''w1'' ''pb'' (0, 9, 0)],
          Upsert (sample_package ''pa'' ''A'') [sample_version ''v0'' ''pa'' (0, 1, 0)]] seed_db)
     = Inr (seed_db\<lparr>packages := [(sample_package ''pb'' ''B'')\<lparr>pkg_latest_version_id := ''w1''\<rparr>,
                                   (sample_package ''pa'' ''A'')\<lparr>pkg_latest_version_id := ''v2''\<rparr>],
                      packages_fts := [fts_row_of (sample_package ''pb'' ''B''),
                                       fts_row_of (sample_package ''pa'' ''A'')],
                      versions := [sample_version ''w1'' ''pb'' (0, 9, 0),
                                   sample_version ''v1'' ''pa'' (1, 0, 0),
                                   sample_version ''v2'' ''pa'' (1, 3, 0),
                                   sample_version ''v3'' ''pa'' (1, 1, 0)]\<rparr>)
 \<and> (\<exists>v \<in> set [sample_version ''w1'' ''pb'' (0, 9, 0), sample_version ''v1'' ''pa'' (1, 0, 0),
                  sample_version ''v2'' ''pa'' (1, 3, 0), sample_version ''v3'' ''pa'' (1, 1, 0)].
       ver_id v = ''v2'' \<and> ver_package_id v = ''pa''
     \<and> triple_le (triple (sample_version ''v1'' ''pa'' (1, 0, 0))) (triple v)
     \<and> triple_le (triple (sample_version ''v3'' ''pa'' (1, 1, 0))) (triple v))"
proof -
  let ?cs = "[Upsert (sample_package ''pb'' ''B'') [sample_version ''w1'' ''pb'' (0, 9, 0)],
              Upsert (sample_package ''pa'' ''A'') [sample_version ''v0'' ''pa'' (0, 1, 0)]]"
  let ?pa = "sample_package ''pa'' ''A''"
  let ?vs = "[sample_version ''v1'' ''pa'' (1, 0, 0), sample_version ''v2'' ''pa'' (1, 3, 0),
              sample_version ''v3'' ''pa'' (1, 1, 0)]"
  let ?row = "?pa\<lparr>pkg_latest_version_id := ''v2''\<rparr>"
  let ?all = "[sample_version ''w1'' ''pb'' (0, 9, 0), sample_version ''v1'' ''pa'' (1, 0, 0),
               sample_version ''v2'' ''pa'' (1, 3, 0), sample_version ''v3'' ''pa'' (1, 1, 0)]"
  let ?d' = "seed_db\<lparr>packages := [(sample_package ''pb'' ''B'')\<lparr>pkg_latest_version_id := ''w1''\<rparr>, ?row],
                      packages_fts := [fts_row_of (sample_package ''pb'' ''B''), fts_row_of ?pa],
                      versions := ?all\<rparr>"
  have r: "catalog_run ?cs seed_db
     = seed_db\<lparr>packages := [(sample_package ''pb'' ''B'')\<lparr>pkg_latest_version_id := ''w1''\<rparr>,
                              ?pa\<lparr>pkg_latest_version_id := ''v0''\<rparr>],
                 packages_fts := [fts_row_of (sample_package ''pb'' ''B''), fts_row_of ?pa],
                 versions := [sample_version ''w1'' ''pb'' (0, 9, 0),
                              sample_version ''v0'' ''pa'' (0, 1, 0)]\<rparr>"
    by (simp add: upsertPackage_def seed_db_def sample_defs insert_package_def
        delete_package_def insert_version_def insert_package_fts_def delete_package_fts_def
        fts_row_of_def triple_def)
  have u: "upsertPackage ?pa ?vs (catalog_run ?cs seed_db) = Inr ?d'"
    unfolding r
    by (simp add: upsertPackage_def seed_db_def sample_defs insert_package_def
        delete_package_def insert_version_def insert_package_fts_def delete_package_fts_def
        fts_row_of_def triple_def)
  note t = latest_version_invariant [of ?cs ?pa ?vs]
  from t have l: "latest_ok (catalog_run ?cs seed_db)" by blast
  have "?row \<in> set (packages ?d')" "pkg_id ?row = pkg_id ?pa" by simp_all
  with t u obtain v where v: "v \<in> set (versions ?d')" "ver_id v = pkg_latest_version_id ?row"
    "ver_package_id v = pkg_id ?pa"
    "\<forall>w \<in> set (versions ?d'). ver_package_id w = pkg_id ?pa \<longrightarrow> triple_le (triple w) (triple v)"
    by blast
  have m: "sample_version ''v1'' ''pa'' (1, 0, 0) \<in> set (versions ?d')"
    "sample_version ''v3'' ''pa'' (1, 1, 0) \<in> set (versions ?d')"
    "ver_package_id (sample_version ''v1'' ''pa'' (1, 0, 0)) = pkg_id ?pa"
    "ver_package_id (sample_version ''v3'' ''pa'' (1, 1, 0)) = pkg_id ?pa"
    by (simp_all add: sample_defs)
  from v(4) m have g: "triple_le (triple (sample_version ''v1'' ''pa'' (1, 0, 0))) (triple v)"
    "triple_le (triple (sample_version ''v3'' ''pa'' (1, 1, 0))) (triple v)" by blast+
  from v(1,2,3) have "v \<in> set ?all" "ver_id v = ''v2''" "ver_package_id v = ''pa''"
    by (simp_all add: sample_defs)
  with g have "\<exists>v \<in> set ?all. ver_id v = ''v2'' \<and> ver_package_id v = ''pa''
     \<and> triple_le (triple (sample_version ''v1'' ''pa'' (1, 0, 0))) (triple v)
     \<and> triple_le (triple (sample_version ''v3'' ''pa'' (1, 1, 0))) (triple v)" by blast
  with r l u show ?thesis by (simp only:)
qed

section \<open>Properties of the resolver\<close>




lemma require_sound:
  assumes "sound d c" "require d r e c = Inr (c', new)"
  shows "sound d c'"
proof -
  obtain k f where e: "e = (k, f)" by (cases e)
  show ?thesis
  proof (cases "c k")
    case None
    with assms(2) e obtain v where bc: "best_candidate k f d = Some v"
      and r: "c' = c(k \<mapsto> (f, v))"
      by (auto simp: require_def split: option.splits)
    from assms(1) best_candidate_Some(1,2) [OF bc] show ?thesis
      unfolding r sound_def by (auto simp del: split_paired_All split_paired_Ex)
  next
    case (Some fv)
    obtain f0 v0 where fv: "fv = (f0, v0)" by (cases fv)
    define f1 where "f1 = (if triple_le f f0 then f0 else f)"
    show ?thesis
    proof (cases "triple_le f1 (triple v0)")
      case True
      with assms(2) e Some fv have r: "c' = c(k \<mapsto> (f1, v0))"
        by (auto simp: require_def f1_def Let_def)
      from assms(1) Some fv have "v0 \<in> set (versions_of k d)" unfolding sound_def by blast
      with assms(1) True show ?thesis unfolding r sound_def
        by (auto simp del: split_paired_All split_paired_Ex)
    next
      case False
      with assms(2) e Some fv obtain v where bc: "best_candidate k f1 d = Some v"
        and r: "c' = c(k \<mapsto> (f1, v))"
        by (auto simp: require_def f1_def Let_def split: option.splits)
      from assms(1) best_candidate_Some(1,2) [OF bc] show ?thesis
        unfolding r sound_def by (auto simp del: split_paired_All split_paired_Ex)
    qed
  qed
qed


lemma scan_edges_sound:
  "sound d c \<Longrightarrow> scan_edges d r es c = Inr (c', new) \<Longrightarrow> sound d c'"
proof (induction es arbitrary: c c' new)
  case Nil
  then show ?case by simp
next
  case (Cons e es)
  from Cons.prems(2) obtain c1 new1 new2 where
    a: "require d r e c = Inr (c1, new1)" and b: "scan_edges d r es c1 = Inr (c', new2)"
    by (auto split: sum.splits prod.splits)
  from Cons.IH [OF require_sound [OF Cons.prems(1) a] b] show ?case .
qed



lemma resolve_single_root:
  assumes "find (\<lambda>v. triple v = tA) (versions_of kA d) = Some va"
  shows "resolve d [(kA, tA)] =
     (case closure d [va] [kA \<mapsto> (tA, va)] of
        Inl err \<Rightarrow> Inl err
      | Inr c1 \<Rightarrow> Inr (\<lambda>k. map_option (\<lambda>(f, v). ver_id v) (c1 k)))"
  using assms by (simp add: resolve_def)



lemma require_error:
  assumes "sound d c" and "require d r (k, f) c = Inl e"
  shows "e = Unsatisfiable k f (Some r) \<and> (\<forall>w \<in> set (versions_of k d). \<not> triple_le f (triple w))"
proof (cases "c k")
  case None
  with assms(2) have "best_candidate k f d = None" "e = Unsatisfiable k f (Some r)"
    by (auto simp: require_def split: option.splits)
  then show ?thesis by (simp add: best_candidate_None)
next
  case (Some fv)
  obtain f0 v0 where fv: "fv = (f0, v0)" by (cases fv)
  define f1 where "f1 = (if triple_le f f0 then f0 else f)"
  from assms(1) Some fv have s0: "triple_le f0 (triple v0)" unfolding sound_def by blast
  from assms(2) Some fv have nle: "\<not> triple_le f1 (triple v0)"
    and bc: "best_candidate k f1 d = None" and e: "e = Unsatisfiable k f1 (Some r)"
    by (auto simp: require_def f1_def Let_def split: option.splits if_splits)
  from nle s0 have "f1 = f" unfolding f1_def by (auto split: if_splits)
  with bc e show ?thesis by (simp add: best_candidate_None)
qed


lemma require_succeeds:
  assumes "sound d c" and "\<exists>w \<in> set (versions_of k d). triple_le f (triple w)"
  shows "\<exists>c' new. require d r (k, f) c = Inr (c', new)"
proof (cases "require d r (k, f) c")
  case (Inl e)
  from require_error [OF assms(1) Inl] assms(2) show ?thesis by blast
next
  case (Inr x)
  then show ?thesis by (cases x) simp
qed

lemma scan_edges_error:
  "sound d c \<Longrightarrow> scan_edges d r es c = Inl e \<Longrightarrow>
     \<exists>k f. (k, f) \<in> set es \<and> e = Unsatisfiable k f (Some r)
        \<and> (\<forall>w \<in> set (versions_of k d). \<not> triple_le f (triple w))"
proof (induction es arbitrary: c)
  case Nil
  then show ?case by simp
next
  case (Cons x es)
  obtain k f where x: "x = (k, f)" by (cases x)
  show ?case
  proof (cases "require d r (k, f) c")
    case (Inl e')
    with Cons.prems(2) x have "e' = e" by simp
    with require_error [OF Cons.prems(1) Inl] x
    have "(k, f) \<in> set (x # es)" "e = Unsatisfiable k f (Some r)"
      "\<forall>w \<in> set (versions_of k d). \<not> triple_le f (triple w)" by simp_all
    then show ?thesis by blast
  next
    case (Inr y)
    obtain c1 new1 where y: "y = (c1, new1)" by (cases y)
    from Inr y have r1: "require d r x c = Inr (c1, new1)" using x by simp
    with Cons.prems(2) have "scan_edges d r es c1 = Inl e"
      by (auto split: sum.splits prod.splits)
    from Cons.IH [OF require_sound [OF Cons.prems(1) r1] this] obtain k' f' where
      "(k', f') \<in> set es" "e = Unsatisfiable k' f' (Some r)"
      "\<forall>w \<in> set (versions_of k' d). \<not> triple_le f' (triple w)" by blast
    then have "(k', f') \<in> set (x # es)" by simp
    with \<open>e = Unsatisfiable k' f' (Some r)\<close>
      \<open>\<forall>w \<in> set (versions_of k' d). \<not> triple_le f' (triple w)\<close>
    show ?thesis by blast
  qed
qed



lemma closure_error:
  "sound d c \<Longrightarrow> closure d queue c = Inl e \<Longrightarrow>
     \<exists>k f r. e = Unsatisfiable k f (Some r) \<and> (k, f) \<in> set (getDependencyEdges r d)
        \<and> (\<forall>w \<in> set (versions_of k d). \<not> triple_le f (triple w))"
proof (induction d queue c rule: closure.induct)
  case (1 d c)
  then show ?case by simp
next
  case (2 d v queue c)
  show ?case
  proof (cases "scan_edges d (ver_id v) (getDependencyEdges (ver_id v) d) c")
    case (Inl e')
    with "2.prems"(2) have "e' = e" by simp
    with scan_edges_error [OF "2.prems"(1) Inl] show ?thesis by blast
  next
    case (Inr x)
    obtain c1 new where x: "x = (c1, new)" by (cases x)
    from Inr x have a: "scan_edges d (ver_id v) (getDependencyEdges (ver_id v) d) c = Inr (c1, new)"
      by simp
    with "2.prems"(2) have b: "closure d (queue @ new) c1 = Inl e" by simp
    from "2.IH" [OF a refl scan_edges_sound [OF "2.prems"(1) a] b] show ?thesis .
  qed
qed

lemma root_sound:
  assumes "find (\<lambda>v. triple v = tA) (versions_of kA d) = Some va"
  shows "sound d [kA \<mapsto> (tA, va)]"
proof -
  from assms have "va \<in> set (versions_of kA d)" "triple va = tA"
    by (auto simp: find_Some_iff in_set_conv_nth)
  then show ?thesis
    by (auto simp: sound_def triple_le_refl simp del: split_paired_All split_paired_Ex)
qed

lemma resolve_error:
  assumes root: "find (\<lambda>v. triple v = tA) (versions_of kA d) = Some va"
    and res: "resolve d [(kA, tA)] = Inl e"
  shows "\<exists>k f r. e = Unsatisfiable k f (Some r) \<and> (k, f) \<in> set (getDependencyEdges r d)
        \<and> (\<forall>w \<in> set (versions_of k d). \<not> triple_le f (triple w))"
proof -
  from res have "closure d [va] [kA \<mapsto> (tA, va)] = Inl e"
    unfolding resolve_single_root [OF root] by (auto split: sum.splits)
  from closure_error [OF root_sound [OF root] this] show ?thesis .
qed





end
